theory Spec2Isabelle
  imports Complex_Main
begin

section \<open>Numbers as numpy has them\<close>

text \<open>
  The program computes on numpy \<open>float64\<close> values. A value is either a finite number or
  one of the three IEEE special values. numpy does not raise on a division by zero or on
  an overflow: it produces \<open>inf\<close> or \<open>nan\<close> (with a warning) and carries on, so these
  outcomes are values of the model, not errors. Finite results are exact here: rounding to
  53 bits is not part of the model, and zero carries no sign (a division by zero takes the
  sign of its numerator, as for a divisor \<open>+0.0\<close>).
\<close>

datatype npfloat = Fin real | PInf | NInf | NaN

definition MAXF :: real where
  \<comment> \<open>The largest finite float64.\<close>
  "MAXF = (2 - 1 / 2 ^ 52) * 2 ^ 1023"

definition overflow :: "real \<Rightarrow> npfloat" where
  "overflow r = (if MAXF < r then PInf else if r < - MAXF then NInf else Fin r)"

fun np_neg :: "npfloat \<Rightarrow> npfloat" where
  "np_neg (Fin a) = Fin (- a)"
| "np_neg PInf = NInf"
| "np_neg NInf = PInf"
| "np_neg NaN = NaN"

fun np_add :: "npfloat \<Rightarrow> npfloat \<Rightarrow> npfloat" where
  "np_add (Fin a) (Fin b) = overflow (a + b)"
| "np_add (Fin a) PInf = PInf"
| "np_add (Fin a) NInf = NInf"
| "np_add PInf (Fin b) = PInf"
| "np_add PInf PInf = PInf"
| "np_add PInf NInf = NaN"
| "np_add NInf (Fin b) = NInf"
| "np_add NInf PInf = NaN"
| "np_add NInf NInf = NInf"
| "np_add NaN b = NaN"
| "np_add a NaN = NaN"

definition np_sub :: "npfloat \<Rightarrow> npfloat \<Rightarrow> npfloat" where
  "np_sub a b = np_add a (np_neg b)"

fun np_mul :: "npfloat \<Rightarrow> npfloat \<Rightarrow> npfloat" where
  "np_mul (Fin a) (Fin b) = overflow (a * b)"
| "np_mul (Fin a) PInf = (if a = 0 then NaN else if 0 < a then PInf else NInf)"
| "np_mul (Fin a) NInf = (if a = 0 then NaN else if 0 < a then NInf else PInf)"
| "np_mul PInf (Fin b) = (if b = 0 then NaN else if 0 < b then PInf else NInf)"
| "np_mul NInf (Fin b) = (if b = 0 then NaN else if 0 < b then NInf else PInf)"
| "np_mul PInf PInf = PInf"
| "np_mul PInf NInf = NInf"
| "np_mul NInf PInf = NInf"
| "np_mul NInf NInf = PInf"
| "np_mul NaN b = NaN"
| "np_mul a NaN = NaN"

fun np_div :: "npfloat \<Rightarrow> npfloat \<Rightarrow> npfloat" where
  "np_div (Fin a) (Fin b) =
     (if b = 0 then (if a = 0 then NaN else if 0 < a then PInf else NInf)
      else overflow (a / b))"
| "np_div (Fin a) PInf = Fin 0"
| "np_div (Fin a) NInf = Fin 0"
| "np_div PInf (Fin b) = (if 0 \<le> b then PInf else NInf)"
| "np_div NInf (Fin b) = (if 0 \<le> b then NInf else PInf)"
| "np_div PInf PInf = NaN"
| "np_div PInf NInf = NaN"
| "np_div NInf PInf = NaN"
| "np_div NInf NInf = NaN"
| "np_div NaN b = NaN"
| "np_div a NaN = NaN"

fun np_exp :: "npfloat \<Rightarrow> npfloat" where
  "np_exp (Fin a) = overflow (exp a)"
| "np_exp PInf = PInf"
| "np_exp NInf = Fin 0"
| "np_exp NaN = NaN"

fun np_pow :: "npfloat \<Rightarrow> nat \<Rightarrow> npfloat" where
  \<comment> \<open>\<open>a ** n\<close> for a literal exponent \<open>n\<close>.\<close>
  "np_pow (Fin a) n = overflow (a ^ n)"
| "np_pow PInf n = (if n = 0 then Fin 1 else PInf)"
| "np_pow NInf n = (if n = 0 then Fin 1 else if even n then PInf else NInf)"
| "np_pow NaN n = (if n = 0 then Fin 1 else NaN)"

section \<open>Parameters.py: constants and spectral functions\<close>

definition c_light :: real where
  \<comment> \<open>\<open>c\<close> in the source: speed of light, m/s.\<close>
  "c_light = 299792458"

definition h_p :: real where
  "h_p = 6626068 / 10 ^ 40"

definition k_b :: real where
  "k_b = 138065 / 10 ^ 28"

definition TCMB :: real where
  "TCMB = 2725 / 1000"

text \<open>
  \<open>d_b\<close> and \<open>classical_tsz\<close> work elementwise on arrays; the definitions give what they
  compute for one element. Sub-expressions of Python constants only, such as
  \<open>(2 * h_p) / (c ** 2)\<close>, are finite numbers and are written as such.
\<close>

definition d_b :: "npfloat \<Rightarrow> npfloat \<Rightarrow> npfloat" where
  "d_b dt frequency =
     (let temp = np_div (Fin TCMB) (np_add (Fin 1) dt);
          x = np_mul (np_div (Fin h_p) (np_mul (Fin k_b) temp)) frequency;
          I = np_mul (Fin ((2 * h_p) / c_light ^ 2))
                (np_pow (np_div (np_mul (Fin k_b) temp) (Fin h_p)) 3)
      in np_mul
           (np_div
              (np_mul I
                 (np_div (np_mul (np_pow x 4) (np_exp x))
                    (np_pow (np_sub (np_exp x) (Fin 1)) 2)))
              temp)
           dt)"

definition classical_tsz_x_b :: "npfloat \<Rightarrow> npfloat" where
  \<comment> \<open>The local \<open>x_b\<close> of \<open>classical_tsz\<close>.\<close>
  "classical_tsz_x_b frequency = np_mul (Fin (h_p / (k_b * TCMB))) frequency"

definition classical_tsz_bv :: "npfloat \<Rightarrow> npfloat" where
  \<comment> \<open>The local \<open>bv\<close> of \<open>classical_tsz\<close>.\<close>
  "classical_tsz_bv frequency =
     (let x_b = classical_tsz_x_b frequency
      in np_mul
           (np_mul (Fin (2 * k_b * TCMB)) (np_div (np_pow frequency 2) (Fin (c_light ^ 2))))
           (np_div x_b (np_sub (np_exp x_b) (Fin 1))))"

definition classical_tsz :: "npfloat \<Rightarrow> npfloat \<Rightarrow> npfloat" where
  "classical_tsz y frequency =
     (let x_b = classical_tsz_x_b frequency;
          bv = classical_tsz_bv frequency
      in np_mul
           (np_mul
              (np_mul y
                 (np_div (np_mul x_b (np_exp x_b)) (np_sub (np_exp x_b) (Fin 1))))
              (np_sub
                 (np_mul x_b
                    (np_div (np_add (np_exp x_b) (Fin 1)) (np_sub (np_exp x_b) (Fin 1))))
                 (Fin 4)))
           bv)"

definition xfac :: real where
  \<comment> \<open>The constant \<open>h_p / (k_b * TCMB)\<close> that turns a frequency into the dimensionless \<open>x\<close>.\<close>
  "xfac = h_p / (k_b * TCMB)"

text \<open>
  The formula of the specification for the classical tSZ distortion, over the reals, in the
  specification's own words: \<open>x_b = (h nu)/(k_B T_CMB)\<close>, the blackbody intensity
  \<open>B_nu = 2 h nu^3 / c^2 / (e^x_b - 1)\<close>, and
  \<open>y [x_b e^x_b/(e^x_b - 1)] [x_b (e^x_b + 1)/(e^x_b - 1) - 4] B_nu\<close>.
\<close>

definition spec_x_b :: "real \<Rightarrow> real" where
  "spec_x_b nu = (h_p * nu) / (k_b * TCMB)"

definition spec_B_nu :: "real \<Rightarrow> real" where
  "spec_B_nu nu = (2 * h_p * nu ^ 3 / c_light ^ 2) / (exp (spec_x_b nu) - 1)"

definition spec_classical_tsz :: "real \<Rightarrow> real \<Rightarrow> real" where
  "spec_classical_tsz y nu =
     (let x_b = spec_x_b nu
      in y * (x_b * exp x_b / (exp x_b - 1)) * (x_b * (exp x_b + 1) / (exp x_b - 1) - 4)
           * spec_B_nu nu)"

section \<open>Errors, arrays and the numpy operations the program uses\<close>

datatype pyerr = IndexError | ValueError | ZeroDivisionError | OverflowError | CollaboratorError

text \<open>
  A two-dimensional \<open>ndarray\<close>: its shape and its elements in row-major order. The
  program builds three-dimensional arrays only as \<open>np.asarray([m])\<close>, a list holding one
  two-dimensional array.
\<close>

record arr2 =
  nrows :: nat
  ncols :: nat
  adata :: "npfloat list"

type_synonym arr3 = "arr2 list"

definition get2 :: "arr2 \<Rightarrow> nat \<Rightarrow> nat \<Rightarrow> npfloat" where
  \<comment> \<open>\<open>a[i][k]\<close> for indices inside the shape.\<close>
  "get2 a i k = adata a ! (i * ncols a + k)"

definition set2 :: "arr2 \<Rightarrow> nat \<Rightarrow> nat \<Rightarrow> npfloat \<Rightarrow> arr2" where
  \<comment> \<open>\<open>a[i][k] = v\<close> for indices inside the shape.\<close>
  "set2 a i k v = a\<lparr>adata := (adata a)[i * ncols a + k := v]\<rparr>"

definition const_arr :: "nat \<Rightarrow> nat \<Rightarrow> npfloat \<Rightarrow> arr2" where
  "const_arr r k v = \<lparr>nrows = r, ncols = k, adata = replicate (r * k) v\<rparr>"

definition py_index :: "int \<Rightarrow> nat \<Rightarrow> pyerr + nat" where
  \<comment> \<open>An integer index into an axis of length \<open>n\<close>: negative indices count from the end.\<close>
  "py_index i n =
     (if 0 \<le> i \<and> i < int n then Inr (nat i)
      else if - int n \<le> i \<and> i < 0 then Inr (nat (i + int n))
      else Inl IndexError)"

definition pixel :: "arr2 \<Rightarrow> int \<Rightarrow> int \<Rightarrow> pyerr + npfloat" where
  \<comment> \<open>\<open>a[i, j]\<close>.\<close>
  "pixel a i j =
     (case py_index i (nrows a) of
        Inl e \<Rightarrow> Inl e
      | Inr i' \<Rightarrow>
          (case py_index j (ncols a) of
             Inl e \<Rightarrow> Inl e
           | Inr j' \<Rightarrow> Inr (get2 a i' j')))"

definition slice_bound :: "int \<Rightarrow> nat \<Rightarrow> nat" where
  \<comment> \<open>A slice bound is clipped to the axis, never an error.\<close>
  "slice_bound i n = (if i < 0 then nat (max 0 (i + int n)) else min (nat i) n)"

definition slice2 :: "arr2 \<Rightarrow> int \<Rightarrow> int \<Rightarrow> int \<Rightarrow> int \<Rightarrow> arr2" where
  \<comment> \<open>\<open>a[r0:r1, c0:c1]\<close>.\<close>
  "slice2 a r0 r1 c0 c1 =
     (let rlo = slice_bound r0 (nrows a); rhi = slice_bound r1 (nrows a);
          clo = slice_bound c0 (ncols a); chi = slice_bound c1 (ncols a)
      in \<lparr>nrows = rhi - rlo, ncols = chi - clo,
           adata = concat (map (\<lambda>i. map (\<lambda>k. get2 a i k) [clo..<chi]) [rlo..<rhi])\<rparr>)"

definition np_sum :: "npfloat list \<Rightarrow> npfloat" where
  "np_sum xs = foldl np_add (Fin 0) xs"

definition np_mean :: "arr2 \<Rightarrow> npfloat" where
  \<comment> \<open>\<open>np.mean\<close> over all elements; of an empty array it is \<open>0/0 = nan\<close>.\<close>
  "np_mean a = np_div (np_sum (adata a)) (Fin (real (length (adata a))))"

definition broadcast_dim :: "nat \<Rightarrow> nat \<Rightarrow> nat option" where
  "broadcast_dim m n = (if m = n then Some m else if m = 1 then Some n else if n = 1 then Some m else None)"

definition arr_binop :: "(npfloat \<Rightarrow> npfloat \<Rightarrow> npfloat) \<Rightarrow> arr2 \<Rightarrow> arr2 \<Rightarrow> pyerr + arr2" where
  \<comment> \<open>An elementwise operation on two arrays, with numpy's broadcasting of axes of length 1.\<close>
  "arr_binop f a b =
     (case (broadcast_dim (nrows a) (nrows b), broadcast_dim (ncols a) (ncols b)) of
        (Some r, Some k) \<Rightarrow>
          Inr \<lparr>nrows = r, ncols = k,
               adata = concat (map (\<lambda>i. map (\<lambda>j.
                   f (get2 a (if nrows a = 1 then 0 else i) (if ncols a = 1 then 0 else j))
                     (get2 b (if nrows b = 1 then 0 else i) (if ncols b = 1 then 0 else j)))
                 [0..<k]) [0..<r])\<rparr>
      | _ \<Rightarrow> Inl ValueError)"

definition arr_scale :: "arr2 \<Rightarrow> npfloat \<Rightarrow> arr2" where
  \<comment> \<open>\<open>a * s\<close> for a scalar \<open>s\<close>.\<close>
  "arr_scale a s = a\<lparr>adata := map (\<lambda>v. np_mul v s) (adata a)\<rparr>"

fun arr3_add :: "arr3 \<Rightarrow> arr3 \<Rightarrow> pyerr + arr3" where
  \<comment> \<open>The sum of two arrays of the form \<open>np.asarray([m])\<close>.\<close>
  "arr3_add [a] [b] = (case arr_binop np_add a b of Inl e \<Rightarrow> Inl e | Inr s \<Rightarrow> Inr [s])"
| "arr3_add as bs = Inl ValueError"

definition reshape_square :: "arr3 \<Rightarrow> int \<Rightarrow> pyerr + arr2" where
  \<comment> \<open>\<open>np.asarray([m]).reshape(nx, nx)\<close>: the element count has to be \<open>nx * nx\<close>.\<close>
  "reshape_square ms nx =
     (let flat = concat (map adata ms)
      in if nx < 0 \<or> int (length flat) \<noteq> nx * nx then Inl ValueError
         else Inr \<lparr>nrows = nat nx, ncols = nat nx, adata = flat\<rparr>)"

definition asarray_flatten :: "arr2 list \<Rightarrow> pyerr + npfloat list" where
  \<comment> \<open>\<open>np.asarray(xs).flatten()\<close> for a list of arrays, which have to agree in shape.\<close>
  "asarray_flatten xs =
     (if list_all (\<lambda>a. nrows a = nrows (hd xs) \<and> ncols a = ncols (hd xs)) xs
      then Inr (concat (map adata xs)) else Inl ValueError)"

definition int_of_quotient :: "real \<Rightarrow> real \<Rightarrow> pyerr + int" where
  \<comment> \<open>\<open>int(a / b)\<close> on Python floats: truncation towards zero.\<close>
  "int_of_quotient a b =
     (if b = 0 then Inl ZeroDivisionError
      else (case overflow (a / b) of
              Fin q \<Rightarrow> Inr (if 0 \<le> q then \<lfloor>q\<rfloor> else \<lceil>q\<rceil>)
            | _ \<Rightarrow> Inl OverflowError))"

definition linspace :: "real \<Rightarrow> real \<Rightarrow> int \<Rightarrow> pyerr + real list" where
  "linspace a b n =
     (if n < 0 then Inl ValueError
      else Inr (map (\<lambda>i. a + real i * ((b - a) / real (nat n - 1))) [0..<nat n]))"

definition meshgrid :: "real list \<Rightarrow> real list \<Rightarrow> arr2 \<times> arr2" where
  "meshgrid xs ys =
     (\<lparr>nrows = length ys, ncols = length xs,
        adata = concat (replicate (length ys) (map Fin xs))\<rparr>,
      \<lparr>nrows = length ys, ncols = length xs,
        adata = concat (map (\<lambda>y. replicate (length xs) (Fin y)) ys)\<rparr>)"

section \<open>The collaborators\<close>

text \<open>
  The solver of the power spectrum (CAMB), the modules \<open>flatsky\<close>, \<open>tools\<close> and \<open>inpaint\<close>,
  numpy's random generator and scipy's \<open>fsolve\<close> are not part of the source; the program
  is a function of them. The generator state of \<open>np.random\<close> is global: every function
  that draws from it takes the state and returns the new one. A collaborator is a
  function of its arguments and of that state, and does not modify an array it is given.
\<close>

type_synonym mapparams = "int \<times> int \<times> real \<times> real"

record ('b, 'f) sky_args =
  arg_ra_grid :: arr2
  arg_dec_grid :: arr2
  arg_mapparams :: mapparams
  arg_el :: "nat list"
  arg_cl_dic :: "(string \<times> npfloat list) list"
  arg_bl :: 'b
  arg_lpf :: 'f
  arg_nl_dic :: "(string \<times> npfloat list) list"
  arg_mask_radius_inner :: nat
  arg_mask_radius_outer :: nat
  arg_low_pass_cutoff :: nat

record ('g, 'b, 'f, 's) collab =
  seed_state :: "int \<Rightarrow> 'g"
  next_raw :: "'g \<Rightarrow> nat \<times> 'g"
  camb_totCL_TT :: "npfloat list"
  get_bl :: "real \<Rightarrow> nat list \<Rightarrow> mapparams \<Rightarrow> 'b"
  get_nl :: "real \<Rightarrow> nat list \<Rightarrow> npfloat list"
  get_lpf_hpf :: "mapparams \<Rightarrow> nat \<Rightarrow> nat \<Rightarrow> 'f"
  make_gaussian_realisation ::
    "mapparams \<Rightarrow> nat list \<Rightarrow> npfloat list \<Rightarrow> 'b option \<Rightarrow> 'g \<Rightarrow> pyerr + (arr2 \<times> 'g)"
  get_covariance :: "('b, 'f) sky_args \<Rightarrow> nat \<Rightarrow> 'g \<Rightarrow> pyerr + ('s \<times> 'g)"
  inpainting ::
    "(string \<times> arr3) list \<Rightarrow> ('b, 'f) sky_args \<Rightarrow> 's \<Rightarrow> 'g
       \<Rightarrow> pyerr + ((arr2 \<times> arr2 \<times> arr2) \<times> 'g)"
  fsolve :: "(npfloat \<Rightarrow> npfloat) \<Rightarrow> npfloat \<Rightarrow> npfloat"

definition randint :: "('g, 'b, 'f, 's) collab \<Rightarrow> int \<Rightarrow> int \<Rightarrow> 'g \<Rightarrow> int \<times> 'g" where
  \<comment> \<open>\<open>np.random.randint(low, high)\<close> for \<open>low < high\<close>: an integer of \<open>[low, high)\<close>.\<close>
  "randint c low high g = (case next_raw c g of (r, g') \<Rightarrow> (low + int r mod (high - low), g'))"

section \<open>Parameters.py: the map builders\<close>

definition dl_to_cl :: "npfloat list \<Rightarrow> pyerr + npfloat list" where
  \<comment> \<open>Lines 79-83, 153-157 and 185-189: \<open>dl_tt[0] = 0\<close>, \<open>dl_fac = el * (el + 1) / 2 / np.pi\<close>,
      \<open>cl_tt = (TCMB ** 2. * dl_tt * 1e12) / dl_fac\<close>, with \<open>el = np.arange(len(dl_tt))\<close>.\<close>
  "dl_to_cl dl_tt0 =
     (if dl_tt0 = [] then Inl IndexError
      else
        let dl_tt = dl_tt0[0 := Fin 0];
            el = [0..<length dl_tt0];
            dl_fac = map (\<lambda>l. np_div (np_div (Fin (real (l * (l + 1)))) (Fin 2)) (Fin pi)) el
        in Inr (map2 (\<lambda>d f. np_div (np_mul (np_mul (Fin (TCMB ^ 2)) d) (Fin (10 ^ 12))) f)
                  dl_tt dl_fac))"

definition ksz_dl_tt :: "npfloat list" where
  "ksz_dl_tt = replicate 5051 (Fin (3 / 10 ^ 12))"

definition tsz_dl_tt :: "npfloat list" where
  "tsz_dl_tt = replicate 5051 (Fin (342 / 10 ^ 14))"

definition cmb_setup ::
  "('g, 'b, 'f, 's) collab \<Rightarrow> real \<Rightarrow> int
     \<Rightarrow> pyerr + (arr3 \<times> ('b, 'f) sky_args \<times> 's \<times> 'g)" where
  \<comment> \<open>\<open>create_cmb_map\<close>, lines 60-121: everything before the loop. The result is the
      composite map, the keyword arguments shared by the two inpainting calls, the
      covariance model and the generator state.\<close>
  "cmb_setup c angular_resolution seed =
     (let g = seed_state c seed;
          dl_tt = camb_totCL_TT c;
          el = [0..<length dl_tt]
      in case dl_to_cl dl_tt of
           Inl e \<Rightarrow> Inl e
         | Inr cl_tt \<Rightarrow>
      (case int_of_quotient 200 angular_resolution of
           Inl e \<Rightarrow> Inl e
         | Inr nx \<Rightarrow>
      (let dx = angular_resolution;
           mapparams = (nx, nx, dx, dx);
           x1 = - real_of_int nx / 2 * dx;
           x2 = real_of_int nx / 2 * dx;
           bl = get_bl c angular_resolution el mapparams
       in case linspace x1 x2 nx of
            Inl e \<Rightarrow> Inl e
          | Inr ra \<Rightarrow>
       (let grids = meshgrid ra ra;
            nl = get_nl c 1 el;
            lpf = get_lpf_hpf c mapparams 3000 0
        in case make_gaussian_realisation c mapparams el cl_tt (Some bl) g of
             Inl e \<Rightarrow> Inl e
           | Inr (cmb, g1) \<Rightarrow>
        (case make_gaussian_realisation c mapparams el nl None g1 of
             Inl e \<Rightarrow> Inl e
           | Inr (noise, g2) \<Rightarrow>
        (case arr3_add [cmb] [noise] of
             Inl e \<Rightarrow> Inl e
           | Inr sim_map \<Rightarrow>
        (let args = \<lparr>arg_ra_grid = fst grids, arg_dec_grid = snd grids,
                      arg_mapparams = mapparams, arg_el = el,
                      arg_cl_dic = [(''TT'', cl_tt)], arg_bl = bl, arg_lpf = lpf,
                      arg_nl_dic = [(''T'', nl)], arg_mask_radius_inner = 8,
                      arg_mask_radius_outer = 60, arg_low_pass_cutoff = 1\<rparr>
         in case get_covariance c args 1000 g2 of
              Inl e \<Rightarrow> Inl e
            | Inr (sigma_dic, g3) \<Rightarrow> Inr (sim_map, args, sigma_dic, g3))))))))"

definition central_difference :: "arr2 \<times> arr2 \<times> arr2 \<Rightarrow> pyerr + arr2" where
  \<comment> \<open>Line 138: \<open>sim_map_filtered[33:34, 33:34] - sim_map_inpainted[33:34, 33:34]\<close>, on the
      triple \<open>(cmb_inpainted_map, sim_map_inpainted, sim_map_filtered)\<close>.\<close>
  "central_difference r =
     (case r of (cmb_inpainted_map, sim_map_inpainted, sim_map_filtered) \<Rightarrow>
        arr_binop np_sub (slice2 sim_map_filtered 33 34 33 34)
          (slice2 sim_map_inpainted 33 34 33 34))"

text \<open>
  The loop of lines 123-138, \<open>n\<close> iterations to go. Besides the list \<open>cmb_anis\<close> and the
  generator state it returns \<open>passed\<close>, the dictionaries handed to the inpainting
  collaborator, one per iteration: a record of the calls, not a value of the program.
\<close>

fun anis_loop ::
  "('g, 'b, 'f, 's) collab \<Rightarrow> arr3 \<Rightarrow> ('b, 'f) sky_args \<Rightarrow> 's \<Rightarrow> nat \<Rightarrow> arr2 list
     \<Rightarrow> (string \<times> arr3) list list \<Rightarrow> 'g
     \<Rightarrow> pyerr + (arr2 list \<times> (string \<times> arr3) list list \<times> 'g)" where
  "anis_loop c sim_map args sigma_dic 0 cmb_anis passed g = Inr (cmb_anis, passed, g)"
| "anis_loop c sim_map args sigma_dic (Suc n) cmb_anis passed g =
     (let sim_map_dic = [(''T'', sim_map)]
      in case inpainting c sim_map_dic args sigma_dic g of
           Inl e \<Rightarrow> Inl e
         | Inr (r, g') \<Rightarrow>
             (case central_difference r of
                Inl e \<Rightarrow> Inl e
              | Inr d \<Rightarrow>
                  anis_loop c sim_map args sigma_dic n (cmb_anis @ [d])
                    (passed @ [sim_map_dic]) g'))"

definition create_cmb_map ::
  "('g, 'b, 'f, 's) collab \<Rightarrow> real \<Rightarrow> nat \<Rightarrow> int \<Rightarrow> 'g
     \<Rightarrow> pyerr + (npfloat list \<times> (string \<times> arr3) list list \<times> 'g)" where
  \<comment> \<open>The last argument is the generator state at the call; \<open>np.random.seed\<close> replaces it.\<close>
  "create_cmb_map c angular_resolution realizations seed g0 =
     (case cmb_setup c angular_resolution seed of
        Inl e \<Rightarrow> Inl e
      | Inr (sim_map, args, sigma_dic, g3) \<Rightarrow>
          (case anis_loop c sim_map args sigma_dic realizations [] [] g3 of
             Inl e \<Rightarrow> Inl e
           | Inr (cmb_anis, passed, g4) \<Rightarrow>
               (case asarray_flatten cmb_anis of
                  Inl e \<Rightarrow> Inl e
                | Inr flat \<Rightarrow> Inr (map (\<lambda>v. np_mul v (Fin (1 / 10 ^ 6))) flat, passed, g4))))"

definition sz_temperature_map ::
  "('g, 'b, 'f, 's) collab \<Rightarrow> npfloat list \<Rightarrow> real \<Rightarrow> int \<Rightarrow> pyerr + (arr2 \<times> 'g)" where
  \<comment> \<open>Lines 150-169 of \<open>create_ksz_map\<close> and 179-201 of \<open>create_tsz_map\<close>, which differ in the
      flat spectrum \<open>dl_tt\<close> only.\<close>
  "sz_temperature_map c dl_tt angular_resolution seed =
     (let g = seed_state c seed;
          el = [0..<5051]
      in case dl_to_cl dl_tt of
           Inl e \<Rightarrow> Inl e
         | Inr cl_tt \<Rightarrow>
      (case int_of_quotient 3000 angular_resolution of
           Inl e \<Rightarrow> Inl e
         | Inr nx \<Rightarrow>
      (let dx = angular_resolution;
           mapparams = (nx, nx, dx, dx);
           bl = get_bl c angular_resolution el mapparams
       in case make_gaussian_realisation c mapparams el cl_tt (Some bl) g of
            Inl e \<Rightarrow> Inl e
          | Inr (m, g1) \<Rightarrow>
              (case reshape_square [m] nx of
                 Inl e \<Rightarrow> Inl e
               | Inr T \<Rightarrow> Inr (arr_scale T (Fin (1 / 10 ^ 6)), g1)))))"

definition create_ksz_map ::
  "('g, 'b, 'f, 's) collab \<Rightarrow> real \<Rightarrow> int \<Rightarrow> 'g \<Rightarrow> pyerr + (arr2 \<times> 'g)" where
  "create_ksz_map c angular_resolution seed g0 = sz_temperature_map c ksz_dl_tt angular_resolution seed"

definition func :: "npfloat \<Rightarrow> npfloat \<Rightarrow> npfloat" where
  \<comment> \<open>The local \<open>func\<close> of \<open>create_tsz_map\<close>, with \<open>frequency = 143e9\<close>.\<close>
  "func y_value dt =
     np_sub (classical_tsz y_value (Fin (143 * 10 ^ 9))) (d_b dt (Fin (143 * 10 ^ 9)))"

definition solve_pixels :: "('g, 'b, 'f, 's) collab \<Rightarrow> arr2 \<Rightarrow> arr2 \<Rightarrow> arr2" where
  \<comment> \<open>Lines 207-209: the two nested loops over \<open>range(nx)\<close>, assigning \<open>TSZ_Y[i][k]\<close>.\<close>
  "solve_pixels c TSZ_T TSZ_Y =
     fold (\<lambda>i Y. fold (\<lambda>k Y'. set2 Y' i k (fsolve c (\<lambda>y. func y (get2 TSZ_T i k)) (Fin 0)))
                   [0..<ncols TSZ_T] Y)
       [0..<nrows TSZ_T] TSZ_Y"

definition create_tsz_map ::
  "('g, 'b, 'f, 's) collab \<Rightarrow> real \<Rightarrow> int \<Rightarrow> 'g \<Rightarrow> pyerr + (arr2 \<times> 'g)" where
  "create_tsz_map c angular_resolution seed g0 =
     (case sz_temperature_map c tsz_dl_tt angular_resolution seed of
        Inl e \<Rightarrow> Inl e
      | Inr (TSZ_T, g1) \<Rightarrow> Inr (solve_pixels c TSZ_T TSZ_T, g1))"

section \<open>Parameters.py: the parameter file\<close>

definition background_subtracted :: "arr2 \<Rightarrow> int \<Rightarrow> int \<Rightarrow> pyerr + npfloat" where
  \<comment> \<open>Lines 244-245 and 247-248: \<open>m[long, lat] - np.mean(m[long - 2:long + 3, lat - 2:lat + 3])\<close>.\<close>
  "background_subtracted m long lat =
     (case pixel m long lat of
        Inl e \<Rightarrow> Inl e
      | Inr amp \<Rightarrow> Inr (np_sub amp (np_mean (slice2 m (long - 2) (long + 3) (lat - 2) (lat + 3)))))"

fun param_loop ::
  "('g, 'b, 'f, 's) collab \<Rightarrow> arr2 \<Rightarrow> arr2 \<Rightarrow> npfloat list \<Rightarrow> nat list \<Rightarrow> npfloat list list
     \<Rightarrow> 'g \<Rightarrow> pyerr + (npfloat list list \<times> 'g)" where
  \<comment> \<open>The loop of lines 232-251 over the remaining values of \<open>i\<close>.\<close>
  "param_loop c ksz_map tsz_map amp_cmb [] params g = Inr (params, g)"
| "param_loop c ksz_map tsz_map amp_cmb (i # rest) params g =
     (case randint c 0 160 g of (sides_long, g1) \<Rightarrow>
      case randint c 0 160 g1 of (sides_lat, g2) \<Rightarrow>
      case randint c 2 998 g2 of (long, g3) \<Rightarrow>
      case randint c 2 998 g3 of (lat, g4) \<Rightarrow>
      (case background_subtracted ksz_map long lat of
         Inl e \<Rightarrow> Inl e
       | Inr amp_ksz \<Rightarrow>
      (case background_subtracted tsz_map long lat of
         Inl e \<Rightarrow> Inl e
       | Inr amp_tsz \<Rightarrow>
           if length amp_cmb \<le> i then Inl IndexError
           else param_loop c ksz_map tsz_map amp_cmb rest
                  (params @ [[Fin (real_of_int sides_long), Fin (real_of_int sides_lat),
                              amp_cmb ! i, amp_ksz, amp_tsz]]) g4)))"

definition create_parameter_file ::
  "('g, 'b, 'f, 's) collab \<Rightarrow> real \<Rightarrow> nat \<Rightarrow> 'g \<Rightarrow> pyerr + (npfloat list list \<times> 'g)" where
  \<comment> \<open>The result is the matrix handed to \<open>np.save\<close>, and the generator state.\<close>
  "create_parameter_file c angular_resolution realizations g0 =
     (case create_cmb_map c angular_resolution realizations 40 g0 of
        Inl e \<Rightarrow> Inl e
      | Inr (amp_cmb, passed, g1) \<Rightarrow>
     (case create_ksz_map c angular_resolution 40 g1 of
        Inl e \<Rightarrow> Inl e
      | Inr (ksz_map, g2) \<Rightarrow>
     (case create_tsz_map c angular_resolution 40 g2 of
        Inl e \<Rightarrow> Inl e
      | Inr (tsz_map, g3) \<Rightarrow>
     (case param_loop c ksz_map tsz_map amp_cmb [0..<realizations]
             [[Fin 0, Fin 0, Fin 0, Fin 0, Fin 0]] g3 of
        Inl e \<Rightarrow> Inl e
      | Inr (params, g4) \<Rightarrow> Inr (drop 1 params, g4)))))"

section \<open>The calls of the inpainting collaborator, and a collaborator to run the program on\<close>

text \<open>
  What the inpainting collaborator returns in the \<open>n\<close> iterations of the loop of
  \<open>create_cmb_map\<close>, in order: the triples
  \<open>(cmb_inpainted_map, sim_map_inpainted, sim_map_filtered)\<close> of line 136, up to the first
  call that raises.
\<close>

fun inpaint_results ::
  "('g, 'b, 'f, 's) collab \<Rightarrow> (string \<times> arr3) list \<Rightarrow> ('b, 'f) sky_args \<Rightarrow> 's \<Rightarrow> nat \<Rightarrow> 'g
     \<Rightarrow> (arr2 \<times> arr2 \<times> arr2) list" where
  "inpaint_results c d args sigma_dic 0 g = []"
| "inpaint_results c d args sigma_dic (Suc n) g =
     (case inpainting c d args sigma_dic g of
        Inl e \<Rightarrow> []
      | Inr (r, g') \<Rightarrow> r # inpaint_results c d args sigma_dic n g')"

text \<open>
  A collaborator with which the program can be evaluated: the generator state is the list of
  the raw draws to come, the power spectrum has two multipoles, every Gaussian realisation is
  the constant map \<open>v\<close> of the requested size, the inpainting service returns three
  constant maps of 34 by 34 pixels, and the solver returns its initial guess. It stands for
  no part of the repository and is used for concrete runs only.
\<close>

definition stub_collab :: "nat list \<Rightarrow> real \<Rightarrow> (nat list, unit, unit, unit) collab" where
  "stub_collab raws v =
     \<lparr>seed_state = (\<lambda>s. raws),
      next_raw = (\<lambda>g. case g of [] \<Rightarrow> (0, []) | r # rs \<Rightarrow> (r, rs)),
      camb_totCL_TT = [Fin 0, Fin 1],
      get_bl = (\<lambda>b el mp. ()),
      get_nl = (\<lambda>n el. map (\<lambda>l. Fin 0) el),
      get_lpf_hpf = (\<lambda>mp l t. ()),
      make_gaussian_realisation =
        (\<lambda>mp el cl bl g. case mp of (nx, ny, dx, dy) \<Rightarrow> Inr (const_arr (nat ny) (nat nx) (Fin v), g)),
      get_covariance = (\<lambda>a n g. Inr ((), g)),
      inpainting =
        (\<lambda>d a s g. Inr ((const_arr 34 34 (Fin 0), const_arr 34 34 (Fin 1), const_arr 34 34 (Fin 3)), g)),
      fsolve = (\<lambda>f x0. x0)\<rparr>"

section \<open>Facts about the number model\<close>

lemma MAXF_ge: "10 ^ 308 \<le> MAXF"
  by (simp add: MAXF_def)

lemma MAXF_lt: "MAXF < 2 ^ 1024"
  by (simp add: MAXF_def)

lemma MAXF_pos: "0 < MAXF"
  using MAXF_ge by (smt (verit) zero_less_power)

lemma overflow_Fin: "\<bar>r\<bar> \<le> MAXF \<Longrightarrow> overflow r = Fin r"
  by (auto simp: overflow_def)

lemma overflow_small: "\<bar>r\<bar> \<le> 10 ^ 308 \<Longrightarrow> overflow r = Fin r"
  using MAXF_ge by (intro overflow_Fin) linarith

lemma overflow_PInf: "MAXF < r \<Longrightarrow> overflow r = PInf"
  by (simp add: overflow_def)

lemma exp_one_le_4: "exp (1::real) \<le> 4"
proof -
  have "1 + (- (1/2)) \<le> exp (- (1/2) :: real)" by (rule exp_ge_add_one_self)
  then have "1 / 2 \<le> 1 / exp (1/2 :: real)" by (simp add: exp_minus')
  then have "exp (1/2::real) \<le> 2" by (simp add: field_simps)
  then have "exp (1/2::real) ^ 2 \<le> 2 ^ 2" by (intro power_mono) auto
  moreover have "exp (1/2::real) ^ 2 = exp 1" by (simp add: exp_double [symmetric])
  ultimately show ?thesis by simp
qed

lemma exp_two_le: "2 \<le> exp (1::real)"
  using exp_ge_add_one_self [of "1::real"] by simp

lemma exp_nat_upper: "x \<le> real n \<Longrightarrow> exp x \<le> 4 ^ n"
proof -
  assume "x \<le> real n"
  then have "exp x \<le> exp (real n * 1)" by simp
  also have "\<dots> = exp 1 ^ n" by (rule exp_of_nat_mult)
  also have "\<dots> \<le> 4 ^ n" by (intro power_mono exp_one_le_4) simp
  finally show ?thesis .
qed

lemma exp_nat_lower: "real n \<le> x \<Longrightarrow> 2 ^ n \<le> exp x"
proof -
  assume "real n \<le> x"
  have "(2::real) ^ n \<le> exp 1 ^ n" by (intro power_mono exp_two_le) simp
  also have "\<dots> = exp (real n * 1)" by (rule exp_of_nat_mult [symmetric])
  also have "\<dots> \<le> exp x" using \<open>real n \<le> x\<close> by simp
  finally show ?thesis .
qed

lemma overflow_between: "0 \<le> r \<Longrightarrow> r \<le> b \<Longrightarrow> b \<le> 10 ^ 308 \<Longrightarrow> overflow r = Fin r"
  by (rule overflow_small) linarith

lemma abs_le_MAXF: "\<bar>r\<bar> \<le> b \<Longrightarrow> b \<le> 10 ^ 308 \<Longrightarrow> \<bar>r\<bar> \<le> MAXF"
  by (meson MAXF_ge order_trans)

section \<open>The differential blackbody brightness at zero perturbation\<close>

lemma xfac_bounds: "17 / 10 ^ 12 \<le> xfac" "xfac \<le> 18 / 10 ^ 12"
  by (simp_all add: xfac_def h_p_def k_b_def TCMB_def field_simps)

lemma xfac_pos: "0 < xfac"
  by (simp add: xfac_def h_p_def k_b_def TCMB_def)

lemma temp0: "np_div (Fin TCMB) (np_add (Fin 1) (Fin 0)) = Fin TCMB"
  by (simp add: overflow_small TCMB_def)

lemma kT: "np_mul (Fin k_b) (Fin TCMB) = Fin (k_b * TCMB)"
  by (simp add: overflow_small k_b_def TCMB_def)

lemma hkT: "np_div (Fin h_p) (Fin (k_b * TCMB)) = Fin xfac"
proof -
  have "\<bar>xfac\<bar> \<le> 10 ^ 308" using xfac_bounds by (simp add: abs_if) 
  then show ?thesis
    by (simp add: overflow_small xfac_def k_b_def TCMB_def)
qed

lemma d_b_x_large: "np_mul (Fin xfac) (Fin (10 ^ 14)) = Fin (xfac * 10 ^ 14)"
proof -
  have "0 \<le> xfac * 10 ^ 14" "xfac * 10 ^ 14 \<le> 10 ^ 308"
    using xfac_bounds by (simp_all add: field_simps)
  then show ?thesis by (simp add: overflow_small)
qed

lemma exp_large: "np_exp (Fin (xfac * 10 ^ 14)) = PInf"
proof -
  have "real 1700 \<le> xfac * 10 ^ 14" using xfac_bounds(1) by (simp add: field_simps)
  then have "2 ^ 1700 \<le> exp (xfac * 10 ^ 14)" by (rule exp_nat_lower)
  moreover have "MAXF < 2 ^ 1700" using MAXF_lt by (simp add: MAXF_def)
  ultimately have "MAXF < exp (xfac * 10 ^ 14)" by linarith
  then show ?thesis by (simp add: overflow_PInf)
qed

lemma np_mul_Fin: "\<bar>a * b\<bar> \<le> MAXF \<Longrightarrow> np_mul (Fin a) (Fin b) = Fin (a * b)"
  by (simp add: overflow_Fin)

lemma np_div_Fin: "b \<noteq> 0 \<Longrightarrow> \<bar>a / b\<bar> \<le> MAXF \<Longrightarrow> np_div (Fin a) (Fin b) = Fin (a / b)"
  by (simp add: overflow_Fin)

lemma d_b_I0: "\<exists>i. np_mul (Fin ((2 * h_p) / c_light ^ 2))
                (np_pow (np_div (Fin (k_b * TCMB)) (Fin h_p)) 3) = Fin i \<and> \<bar>i\<bar> \<le> 1"
proof -
  have a: "np_div (Fin (k_b * TCMB)) (Fin h_p) = Fin (k_b * TCMB / h_p)"
    by (simp add: overflow_small h_p_def k_b_def TCMB_def)
  have v: "0 \<le> k_b * TCMB / h_p" "k_b * TCMB / h_p \<le> 10 ^ 11"
    by (simp_all add: h_p_def k_b_def TCMB_def)
  then have p3: "(k_b * TCMB / h_p) ^ 3 \<le> (10 ^ 11) ^ 3"
    by (intro power_mono) auto
  have p0: "0 \<le> (k_b * TCMB / h_p) ^ 3" using v by simp
  from p3 p0 have "overflow ((k_b * TCMB / h_p) ^ 3) = Fin ((k_b * TCMB / h_p) ^ 3)"
    by (intro overflow_between [where b = "(10 ^ 11) ^ 3"]) auto
  then have b: "np_pow (Fin (k_b * TCMB / h_p)) 3 = Fin ((k_b * TCMB / h_p) ^ 3)"
    by simp
  have w: "0 \<le> (2 * h_p) / c_light ^ 2" "(2 * h_p) / c_light ^ 2 \<le> 1 / 10 ^ 33"
    by (simp_all add: h_p_def c_light_def)
  have "(2 * h_p) / c_light ^ 2 * (k_b * TCMB / h_p) ^ 3 \<le> (1 / 10 ^ 33) * (10 ^ 11) ^ 3"
    using w p3 p0 by (intro mult_mono) auto
  moreover have "0 \<le> (2 * h_p) / c_light ^ 2 * (k_b * TCMB / h_p) ^ 3"
    using w p0 by (intro mult_nonneg_nonneg)
  ultimately have d: "\<bar>(2 * h_p) / c_light ^ 2 * (k_b * TCMB / h_p) ^ 3\<bar> \<le> 1"
    by simp
  then have "\<bar>(2 * h_p) / c_light ^ 2 * (k_b * TCMB / h_p) ^ 3\<bar> \<le> MAXF"
    by (rule abs_le_MAXF) simp
  then have c: "np_mul (Fin ((2 * h_p) / c_light ^ 2)) (Fin ((k_b * TCMB / h_p) ^ 3))
     = Fin ((2 * h_p) / c_light ^ 2 * (k_b * TCMB / h_p) ^ 3)"
    by (rule np_mul_Fin)
  show ?thesis unfolding a b c using d by blast
qed

text \<open>
  Claim C8, as stated: for every frequency \<open>nu > 0\<close>, \<open>d_b(0, nu) == 0\<close>. At
  \<open>nu = 1e14\<close> Hz the dimensionless frequency is about 1761, \<open>np.exp\<close> overflows to
  \<open>inf\<close>, the quotient \<open>x**4 * exp(x) / (exp(x) - 1)**2\<close> is \<open>inf / inf = nan\<close>, and
  \<open>nan * 0\<close> is \<open>nan\<close>, not zero.
\<close>

theorem d_b_zero_counterexample: "d_b (Fin 0) (Fin (10 ^ 14)) = NaN"
proof -
  have x4: "np_pow (Fin (xfac * 10 ^ 14)) 4 = Fin ((xfac * 10 ^ 14) ^ 4)"
  proof -
    have a0: "0 \<le> xfac * 10 ^ 14" and a1: "xfac * 10 ^ 14 \<le> 1800"
      using xfac_bounds by (simp_all add: field_simps)
    have "(xfac * 10 ^ 14) ^ 4 \<le> 1800 ^ 4" using a1 a0 by (rule power_mono)
    moreover have "0 \<le> (xfac * 10 ^ 14) ^ 4" using a0 by (rule zero_le_power)
    ultimately have "overflow ((xfac * 10 ^ 14) ^ 4) = Fin ((xfac * 10 ^ 14) ^ 4)"
      by (intro overflow_between [where b = "1800 ^ 4"]) auto
    then show ?thesis by simp
  qed
  have pos: "0 < (xfac * 10 ^ 14) ^ 4" using xfac_pos
    by (intro zero_less_power) simp
  obtain i where I: "np_mul (Fin ((2 * h_p) / c_light ^ 2))
                (np_pow (np_div (Fin (k_b * TCMB)) (Fin h_p)) 3) = Fin i"
    using d_b_I0 by blast
  have "d_b (Fin 0) (Fin (10 ^ 14)) =
      np_mul (np_div (np_mul (Fin i)
         (np_div (np_mul (Fin ((xfac * 10 ^ 14) ^ 4)) PInf) (np_pow (np_sub PInf (Fin 1)) 2)))
         (Fin TCMB)) (Fin 0)"
    by (simp only: d_b_def Let_def temp0 kT hkT d_b_x_large exp_large x4 I)
  also have "\<dots> = NaN" using pos by (simp add: np_sub_def)
  finally show ?thesis .
qed

text \<open>
  Claim C8, amended: for every frequency from 1 Hz to 10 THz (the band holds the 143 GHz
  the program uses) no intermediate value overflows and \<open>d_b(0, nu)\<close> is zero. Below the
  band the float exponential rounds to 1 and the quotient is a division by zero; rounding
  is outside the model, so the statement starts at 1 Hz.
\<close>

theorem d_b_zero_in_band:
  assumes "1 \<le> nu" and "nu \<le> 10 ^ 13"
  shows "d_b (Fin 0) (Fin nu) = Fin 0"
proof -
  define x where "x = xfac * nu"
  have xpos: "0 < x" using assms xfac_pos by (simp add: x_def)
  have "x \<le> (18 / 10 ^ 12) * 10 ^ 13"
    unfolding x_def using assms xfac_bounds(2) by (intro mult_mono) auto
  then have xle: "x \<le> 180" by simp
  have "overflow x = Fin x"
    using xpos xle by (intro overflow_between [where b = 180]) auto
  then have X: "np_mul (Fin xfac) (Fin nu) = Fin x"
    by (simp add: x_def)
  define E where "E = exp x"
  have E1: "1 < E" unfolding E_def using xpos by (rule exp_gt_one)
  have "E \<le> 4 ^ 180" unfolding E_def by (rule exp_nat_upper) (use xle in simp)
  then have Ele: "E \<le> 10 ^ 109" by simp
  have "overflow E = Fin E"
    using E1 Ele by (intro overflow_between [where b = "10 ^ 109"]) auto
  then have EX: "np_exp (Fin x) = Fin E"
    by (simp add: E_def)
  have x4le: "x ^ 4 \<le> 180 ^ 4" using xpos xle by (intro power_mono) auto
  have "overflow (x ^ 4) = Fin (x ^ 4)"
    using x4le xpos by (intro overflow_between [where b = "180 ^ 4"]) auto
  then have P4: "np_pow (Fin x) 4 = Fin (x ^ 4)"
    by simp
  have "x ^ 4 * E \<le> 180 ^ 4 * 10 ^ 109"
    using x4le Ele E1 by (intro mult_mono) auto
  moreover have "0 \<le> x ^ 4 * E" using xpos E1 by simp
  ultimately have "overflow (x ^ 4 * E) = Fin (x ^ 4 * E)"
    by (intro overflow_between [where b = "180 ^ 4 * 10 ^ 109"]) auto
  then have NUM: "np_mul (Fin (x ^ 4)) (Fin E) = Fin (x ^ 4 * E)"
    by simp
  have "overflow (E - 1) = Fin (E - 1)"
    using E1 Ele by (intro overflow_between [where b = "10 ^ 109"]) auto
  then have SUB: "np_sub (Fin E) (Fin 1) = Fin (E - 1)"
    by (simp add: np_sub_def)
  have "(E - 1) ^ 2 \<le> (10 ^ 109) ^ 2" using E1 Ele by (intro power_mono) auto
  moreover have "0 \<le> (E - 1) ^ 2" by simp
  ultimately have "overflow ((E - 1) ^ 2) = Fin ((E - 1) ^ 2)"
    by (intro overflow_between [where b = "(10 ^ 109) ^ 2"]) auto
  then have DEN: "np_pow (Fin (E - 1)) 2 = Fin ((E - 1) ^ 2)"
    by simp
  have xE: "x \<le> E - 1" unfolding E_def using exp_ge_add_one_self [of x] by linarith
  have den_pos: "0 < (E - 1) ^ 2" using E1 by simp
  have x2: "x ^ 2 \<le> (E - 1) ^ 2" using xE xpos by (intro power_mono) auto
  define q where "q = x ^ 4 * E / (E - 1) ^ 2"
  have q0: "0 \<le> q" unfolding q_def using xpos E1 by simp
  have "q \<le> x ^ 4 * E / x ^ 2"
    unfolding q_def using x2 xpos E1 by (intro divide_left_mono) auto
  also have "\<dots> = x ^ 2 * E" using xpos by (simp add: power2_eq_square power4_eq_xxxx)
  also have "\<dots> \<le> 180 ^ 2 * 10 ^ 109"
    using xpos xle Ele E1 by (intro mult_mono power_mono) auto
  finally have qle: "q \<le> 10 ^ 114" by simp
  have "overflow q = Fin q"
    using q0 qle by (intro overflow_between [where b = "10 ^ 114"]) auto
  then have Q: "np_div (Fin (x ^ 4 * E)) (Fin ((E - 1) ^ 2)) = Fin q"
    using den_pos by (simp add: q_def)
  obtain i where I: "np_mul (Fin ((2 * h_p) / c_light ^ 2))
                (np_pow (np_div (Fin (k_b * TCMB)) (Fin h_p)) 3) = Fin i" and ile: "\<bar>i\<bar> \<le> 1"
    using d_b_I0 by blast
  have iq: "\<bar>i * q\<bar> \<le> 10 ^ 114"
  proof -
    have "\<bar>i * q\<bar> = \<bar>i\<bar> * q" using q0 by (simp add: abs_mult)
    also have "\<dots> \<le> 1 * 10 ^ 114" using ile q0 qle by (intro mult_mono) auto
    finally show ?thesis by simp
  qed
  have M: "np_mul (Fin i) (Fin q) = Fin (i * q)"
    using iq by (intro np_mul_Fin abs_le_MAXF [where b = "10 ^ 114"]) auto
  have "\<bar>i * q / TCMB\<bar> \<le> \<bar>i * q\<bar>" by (simp add: TCMB_def field_simps)
  then have "\<bar>i * q / TCMB\<bar> \<le> 10 ^ 114" using iq by linarith
  then have "\<bar>i * q / TCMB\<bar> \<le> MAXF" by (rule abs_le_MAXF) simp
  then have D: "np_div (Fin (i * q)) (Fin TCMB) = Fin (i * q / TCMB)"
    by (intro np_div_Fin) (simp_all add: TCMB_def)
  have "d_b (Fin 0) (Fin nu) = np_mul (Fin (i * q / TCMB)) (Fin 0)"
    by (simp only: d_b_def Let_def temp0 kT hkT X EX P4 NUM SUB DEN Q I M D)
  also have "\<dots> = Fin 0" by (simp add: overflow_small)
  finally show ?thesis .
qed

theorem d_b_zero_in_band_witness:
  "(1::real) \<le> 143 * 10 ^ 9 \<and> (143 * 10 ^ 9 :: real) \<le> 10 ^ 13 \<and> d_b (Fin 0) (Fin (143 * 10 ^ 9)) = Fin 0"
  using d_b_zero_in_band [of "143 * 10 ^ 9"] by simp

section \<open>The classical tSZ distortion\<close>

lemma MAXF_ge_one: "1 \<le> MAXF"
  by (rule order_trans [OF _ MAXF_ge]) simp

lemma overflow_FinD: "overflow r = Fin s \<Longrightarrow> s = r \<and> \<bar>r\<bar> \<le> MAXF"
  by (auto simp: overflow_def split: if_splits)

lemma np_mul_FinD: "np_mul a b = Fin r \<Longrightarrow> \<exists>x y. a = Fin x \<and> b = Fin y \<and> r = x * y"
  by (cases a; cases b) (auto simp: overflow_def split: if_splits)

lemma np_mul_Fin_leftD: "np_mul (Fin x) b = Fin r \<Longrightarrow> \<exists>y. b = Fin y \<and> r = x * y"
  by (drule np_mul_FinD) auto

lemma np_add_FinD: "np_add a b = Fin r \<Longrightarrow> \<exists>x y. a = Fin x \<and> b = Fin y \<and> r = x + y"
  by (cases a; cases b) (auto simp: overflow_def split: if_splits)

lemma np_sub_FinD: "np_sub a b = Fin r \<Longrightarrow> \<exists>x y. a = Fin x \<and> b = Fin y \<and> r = x - y"
  unfolding np_sub_def by (cases a; cases b) (auto simp: overflow_def split: if_splits)

lemma np_sub_Fin_rightD: "np_sub a (Fin y) = Fin r \<Longrightarrow> \<exists>x. a = Fin x \<and> r = x - y"
  by (drule np_sub_FinD) auto

lemma np_div_Fin_cases:
  assumes "np_div a b = Fin r"
  shows "(\<exists>x y. a = Fin x \<and> b = Fin y \<and> y \<noteq> 0 \<and> r = x / y) \<or>
         (\<exists>x. a = Fin x \<and> (b = PInf \<or> b = NInf) \<and> r = 0)"
  using assms by (cases a; cases b) (auto simp: overflow_def split: if_splits)

lemma np_div_Fin_rightD: "np_div a (Fin y) = Fin r \<Longrightarrow> \<exists>x. a = Fin x \<and> y \<noteq> 0 \<and> r = x / y"
  by (drule np_div_Fin_cases) auto

lemma np_exp_Fin_cases:
  assumes "np_exp a = Fin e"
  shows "(\<exists>x. a = Fin x \<and> e = exp x) \<or> (a = NInf \<and> e = 0)"
  using assms by (cases a) (auto simp: overflow_def split: if_splits)

lemma np_pow_FinD: "np_pow (Fin a) n = Fin r \<Longrightarrow> r = a ^ n"
  by (auto simp: overflow_def split: if_splits)

lemma exp_not_below: "\<not> exp (x::real) < - MAXF" "\<not> exp (x::real) - 1 < - MAXF"
  using MAXF_ge_one exp_gt_zero [of x] by linarith+

lemma np_sub_one_inf:
  "np_sub (np_exp a) (Fin 1) = PInf \<or> np_sub (np_exp a) (Fin 1) = NInf \<Longrightarrow> np_exp a = PInf"
  using MAXF_ge_one exp_not_below
  by (cases a) (auto simp: np_sub_def overflow_def split: if_splits)

lemma np_mul_PInf_not_Fin: "np_exp a = PInf \<Longrightarrow> np_mul a (np_exp a) \<noteq> Fin n"
  by (cases a) (auto split: if_splits)

lemma x_b_exp_finite:
  assumes "np_div (np_mul xb (np_exp xb)) (np_sub (np_exp xb) (Fin 1)) = Fin a"
  shows "\<exists>x. xb = Fin x \<and> np_exp xb = Fin (exp x) \<and> exp x - 1 \<noteq> 0 \<and>
     np_sub (np_exp xb) (Fin 1) = Fin (exp x - 1) \<and> a = x * exp x / (exp x - 1)"
proof -
  from np_div_Fin_cases [OF assms] consider
      (fin) n d where "np_mul xb (np_exp xb) = Fin n" "np_sub (np_exp xb) (Fin 1) = Fin d"
        "d \<noteq> 0" "a = n / d"
    | (inf) n where "np_mul xb (np_exp xb) = Fin n"
        "np_sub (np_exp xb) (Fin 1) = PInf \<or> np_sub (np_exp xb) (Fin 1) = NInf"
    by blast
  then show ?thesis
  proof cases
    case fin
    from np_sub_Fin_rightD [OF fin(2)] obtain e where e: "np_exp xb = Fin e" and de: "d = e - 1"
      by blast
    from np_exp_Fin_cases [OF e] fin(1) e obtain x where x: "xb = Fin x" "e = exp x"
      by auto
    from fin(1) e x have "n = x * exp x" by (auto dest!: overflow_FinD)
    with x e de fin show ?thesis by auto
  next
    case inf
    from inf(2) have "np_exp xb = PInf" by (rule np_sub_one_inf)
    with inf(1) np_mul_PInf_not_Fin show ?thesis by blast
  qed
qed

lemma x_b_real: "classical_tsz_x_b (Fin nu) = Fin x \<Longrightarrow> x = spec_x_b nu"
  by (auto simp: classical_tsz_x_b_def spec_x_b_def dest!: overflow_FinD)

lemma np_mul_bounded:
  assumes "\<bar>a\<bar> \<le> A" "\<bar>b\<bar> \<le> B" "A * B \<le> 10 ^ 308"
  shows "np_mul (Fin a) (Fin b) = Fin (a * b) \<and> \<bar>a * b\<bar> \<le> A * B"
proof -
  have le: "\<bar>a * b\<bar> \<le> A * B"
    unfolding abs_mult using assms(1,2) by (intro mult_mono) auto
  then have "\<bar>a * b\<bar> \<le> 10 ^ 308" using assms(3) by linarith
  then show ?thesis using le by (simp add: overflow_small)
qed

lemma np_div_bounded:
  assumes "\<bar>a\<bar> \<le> A" "c \<le> \<bar>b\<bar>" "0 < c" "A / c \<le> 10 ^ 308"
  shows "np_div (Fin a) (Fin b) = Fin (a / b) \<and> \<bar>a / b\<bar> \<le> A / c"
proof -
  have b0: "b \<noteq> 0" using assms(2,3) by auto
  have "\<bar>a / b\<bar> = \<bar>a\<bar> / \<bar>b\<bar>" by simp
  also have "\<dots> \<le> A / c" using assms(1,2,3) by (intro frac_le) auto
  finally have le: "\<bar>a / b\<bar> \<le> A / c" .
  then have "\<bar>a / b\<bar> \<le> 10 ^ 308" using assms(4) by linarith
  then show ?thesis using le b0 by (simp add: overflow_small)
qed

lemma np_add_bounded:
  assumes "\<bar>a\<bar> \<le> A" "\<bar>b\<bar> \<le> B" "A + B \<le> 10 ^ 308"
  shows "np_add (Fin a) (Fin b) = Fin (a + b) \<and> \<bar>a + b\<bar> \<le> A + B"
proof -
  have le: "\<bar>a + b\<bar> \<le> A + B" using assms(1,2) by linarith
  then have "\<bar>a + b\<bar> \<le> 10 ^ 308" using assms(3) by linarith
  then show ?thesis using le by (simp add: overflow_small)
qed

lemma np_sub_bounded:
  assumes "\<bar>a\<bar> \<le> A" "\<bar>b\<bar> \<le> B" "A + B \<le> 10 ^ 308"
  shows "np_sub (Fin a) (Fin b) = Fin (a - b) \<and> \<bar>a - b\<bar> \<le> A + B"
proof -
  have le: "\<bar>a - b\<bar> \<le> A + B" using assms(1,2) by linarith
  then have "\<bar>a - b\<bar> \<le> 10 ^ 308" using assms(3) by linarith
  then show ?thesis using le by (simp add: np_sub_def overflow_small)
qed

lemma classical_tsz_finite:
  assumes "1 \<le> nu" and "nu \<le> 10 ^ 13" and "\<bar>y\<bar> \<le> 1"
  shows "\<exists>r. classical_tsz (Fin y) (Fin nu) = Fin r"
proof -
  define x where "x = xfac * nu"
  have xpos: "0 < x" using assms xfac_pos by (simp add: x_def)
  have "x \<le> (18 / 10 ^ 12) * 10 ^ 13"
    unfolding x_def using assms xfac_bounds(2) by (intro mult_mono) auto
  then have xle: "x \<le> 180" by simp
  have "(17 / 10 ^ 12) * 1 \<le> x"
    unfolding x_def using assms xfac_bounds(1) by (intro mult_mono) auto
  then have xge: "1 / 10 ^ 11 \<le> x" by simp
  have "overflow x = Fin x"
    using xpos xle by (intro overflow_between [where b = 180]) auto
  then have X: "classical_tsz_x_b (Fin nu) = Fin x"
    by (simp add: x_def xfac_def classical_tsz_x_b_def)
  define E where "E = exp x"
  have E1: "1 < E" unfolding E_def using xpos by (rule exp_gt_one)
  have "E \<le> 4 ^ 180" unfolding E_def by (rule exp_nat_upper) (use xle in simp)
  then have Ele: "E \<le> 10 ^ 109" by simp
  have "overflow E = Fin E"
    using E1 Ele by (intro overflow_between [where b = "10 ^ 109"]) auto
  then have EX: "np_exp (Fin x) = Fin E"
    by (simp add: E_def)
  have "overflow (E - 1) = Fin (E - 1)"
    using E1 Ele by (intro overflow_between [where b = "10 ^ 109"]) auto
  then have SUB: "np_sub (Fin E) (Fin 1) = Fin (E - 1)"
    by (simp add: np_sub_def)
  have xE: "x \<le> E - 1" unfolding E_def using exp_ge_add_one_self [of x] by linarith
  have dge: "1 / 10 ^ 11 \<le> \<bar>E - 1\<bar>" using xge xE by linarith
  have xb: "\<bar>x\<bar> \<le> 180" using xpos xle by simp
  have Eb: "\<bar>E\<bar> \<le> 10 ^ 109" using E1 Ele by simp
  have one: "\<bar>1::real\<bar> \<le> 1" and four: "\<bar>4::real\<bar> \<le> 4" by simp_all
  \<comment> \<open>first bracket\<close>
  have "np_mul (Fin x) (Fin E) = Fin (x * E) \<and> \<bar>x * E\<bar> \<le> 180 * 10 ^ 109"
    by (rule np_mul_bounded [OF xb Eb]) simp
  then have NUM: "np_mul (Fin x) (Fin E) = Fin (x * E)" and nb: "\<bar>x * E\<bar> \<le> 10 ^ 112"
    by simp_all
  have "np_div (Fin (x * E)) (Fin (E - 1)) = Fin (x * E / (E - 1)) \<and>
      \<bar>x * E / (E - 1)\<bar> \<le> 10 ^ 112 / (1 / 10 ^ 11)"
    by (rule np_div_bounded [OF nb dge]) simp_all
  then have A: "np_div (Fin (x * E)) (Fin (E - 1)) = Fin (x * E / (E - 1))"
    and ab: "\<bar>x * E / (E - 1)\<bar> \<le> 10 ^ 123"
    by simp_all
  have "np_mul (Fin y) (Fin (x * E / (E - 1))) = Fin (y * (x * E / (E - 1))) \<and>
      \<bar>y * (x * E / (E - 1))\<bar> \<le> 1 * 10 ^ 123"
    by (rule np_mul_bounded [OF assms(3) ab]) simp
  then have YA: "np_mul (Fin y) (Fin (x * E / (E - 1))) = Fin (y * (x * E / (E - 1)))"
    and yab: "\<bar>y * (x * E / (E - 1))\<bar> \<le> 10 ^ 123"
    by simp_all
  \<comment> \<open>second bracket\<close>
  have "np_add (Fin E) (Fin 1) = Fin (E + 1) \<and> \<bar>E + 1\<bar> \<le> 10 ^ 109 + 1"
    by (rule np_add_bounded [OF Eb one]) simp
  then have ADD: "np_add (Fin E) (Fin 1) = Fin (E + 1)" and adb: "\<bar>E + 1\<bar> \<le> 10 ^ 110"
    by simp_all
  have "np_div (Fin (E + 1)) (Fin (E - 1)) = Fin ((E + 1) / (E - 1)) \<and>
      \<bar>(E + 1) / (E - 1)\<bar> \<le> 10 ^ 110 / (1 / 10 ^ 11)"
    by (rule np_div_bounded [OF adb dge]) simp_all
  then have D2: "np_div (Fin (E + 1)) (Fin (E - 1)) = Fin ((E + 1) / (E - 1))"
    and d2b: "\<bar>(E + 1) / (E - 1)\<bar> \<le> 10 ^ 121"
    by simp_all
  have "np_mul (Fin x) (Fin ((E + 1) / (E - 1))) = Fin (x * ((E + 1) / (E - 1))) \<and>
      \<bar>x * ((E + 1) / (E - 1))\<bar> \<le> 180 * 10 ^ 121"
    by (rule np_mul_bounded [OF xb d2b]) simp
  then have M2: "np_mul (Fin x) (Fin ((E + 1) / (E - 1))) = Fin (x * ((E + 1) / (E - 1)))"
    and m2b: "\<bar>x * ((E + 1) / (E - 1))\<bar> \<le> 10 ^ 124"
    by simp_all
  have "np_sub (Fin (x * ((E + 1) / (E - 1)))) (Fin 4) = Fin (x * ((E + 1) / (E - 1)) - 4) \<and>
      \<bar>x * ((E + 1) / (E - 1)) - 4\<bar> \<le> 10 ^ 124 + 4"
    by (rule np_sub_bounded [OF m2b four]) simp
  then have S2: "np_sub (Fin (x * ((E + 1) / (E - 1)))) (Fin 4) = Fin (x * ((E + 1) / (E - 1)) - 4)"
    and s2b: "\<bar>x * ((E + 1) / (E - 1)) - 4\<bar> \<le> 10 ^ 125"
    by simp_all
  have "np_mul (Fin (y * (x * E / (E - 1)))) (Fin (x * ((E + 1) / (E - 1)) - 4))
      = Fin (y * (x * E / (E - 1)) * (x * ((E + 1) / (E - 1)) - 4)) \<and>
      \<bar>y * (x * E / (E - 1)) * (x * ((E + 1) / (E - 1)) - 4)\<bar> \<le> 10 ^ 123 * 10 ^ 125"
    by (rule np_mul_bounded [OF yab s2b]) simp
  then have P: "np_mul (Fin (y * (x * E / (E - 1)))) (Fin (x * ((E + 1) / (E - 1)) - 4))
      = Fin (y * (x * E / (E - 1)) * (x * ((E + 1) / (E - 1)) - 4))"
    and pb: "\<bar>y * (x * E / (E - 1)) * (x * ((E + 1) / (E - 1)) - 4)\<bar> \<le> 10 ^ 248"
    by simp_all
  \<comment> \<open>prefactor\<close>
  have "nu ^ 2 \<le> (10 ^ 13) ^ 2" using assms(1,2) by (intro power_mono) auto
  then have n2: "\<bar>nu ^ 2\<bar> \<le> 10 ^ 26" by simp
  then have "overflow (nu ^ 2) = Fin (nu ^ 2)"
    by (intro overflow_between [where b = "10 ^ 26"]) auto
  then have PW: "np_pow (Fin nu) 2 = Fin (nu ^ 2)" by simp
  have c2: "1 \<le> \<bar>c_light ^ 2\<bar>" by (simp add: c_light_def)
  have "np_div (Fin (nu ^ 2)) (Fin (c_light ^ 2)) = Fin (nu ^ 2 / c_light ^ 2) \<and>
      \<bar>nu ^ 2 / c_light ^ 2\<bar> \<le> 10 ^ 26 / 1"
    by (rule np_div_bounded [OF n2 c2]) simp_all
  then have DC: "np_div (Fin (nu ^ 2)) (Fin (c_light ^ 2)) = Fin (nu ^ 2 / c_light ^ 2)"
    and dcb: "\<bar>nu ^ 2 / c_light ^ 2\<bar> \<le> 10 ^ 26"
    by simp_all
  have k2: "\<bar>2 * k_b * TCMB\<bar> \<le> 1" by (simp add: k_b_def TCMB_def)
  have "np_mul (Fin (2 * k_b * TCMB)) (Fin (nu ^ 2 / c_light ^ 2))
      = Fin (2 * k_b * TCMB * (nu ^ 2 / c_light ^ 2)) \<and>
      \<bar>2 * k_b * TCMB * (nu ^ 2 / c_light ^ 2)\<bar> \<le> 1 * 10 ^ 26"
    by (rule np_mul_bounded [OF k2 dcb]) simp
  then have MK: "np_mul (Fin (2 * k_b * TCMB)) (Fin (nu ^ 2 / c_light ^ 2))
      = Fin (2 * k_b * TCMB * (nu ^ 2 / c_light ^ 2))"
    and mkb: "\<bar>2 * k_b * TCMB * (nu ^ 2 / c_light ^ 2)\<bar> \<le> 10 ^ 26"
    by simp_all
  have "np_div (Fin x) (Fin (E - 1)) = Fin (x / (E - 1)) \<and>
      \<bar>x / (E - 1)\<bar> \<le> 180 / (1 / 10 ^ 11)"
    by (rule np_div_bounded [OF xb dge]) simp_all
  then have DX: "np_div (Fin x) (Fin (E - 1)) = Fin (x / (E - 1))"
    and dxb: "\<bar>x / (E - 1)\<bar> \<le> 10 ^ 14"
    by simp_all
  have "np_mul (Fin (2 * k_b * TCMB * (nu ^ 2 / c_light ^ 2))) (Fin (x / (E - 1)))
      = Fin (2 * k_b * TCMB * (nu ^ 2 / c_light ^ 2) * (x / (E - 1))) \<and>
      \<bar>2 * k_b * TCMB * (nu ^ 2 / c_light ^ 2) * (x / (E - 1))\<bar> \<le> 10 ^ 26 * 10 ^ 14"
    by (rule np_mul_bounded [OF mkb dxb]) simp
  then have BV: "np_mul (Fin (2 * k_b * TCMB * (nu ^ 2 / c_light ^ 2))) (Fin (x / (E - 1)))
      = Fin (2 * k_b * TCMB * (nu ^ 2 / c_light ^ 2) * (x / (E - 1)))"
    and bvb: "\<bar>2 * k_b * TCMB * (nu ^ 2 / c_light ^ 2) * (x / (E - 1))\<bar> \<le> 10 ^ 40"
    by simp_all
  have BVX: "classical_tsz_bv (Fin nu) = Fin (2 * k_b * TCMB * (nu ^ 2 / c_light ^ 2) * (x / (E - 1)))"
    by (simp only: classical_tsz_bv_def Let_def X EX SUB PW DC MK DX BV)
  have "np_mul (Fin (y * (x * E / (E - 1)) * (x * ((E + 1) / (E - 1)) - 4)))
        (Fin (2 * k_b * TCMB * (nu ^ 2 / c_light ^ 2) * (x / (E - 1))))
      = Fin (y * (x * E / (E - 1)) * (x * ((E + 1) / (E - 1)) - 4)
           * (2 * k_b * TCMB * (nu ^ 2 / c_light ^ 2) * (x / (E - 1)))) \<and>
      \<bar>y * (x * E / (E - 1)) * (x * ((E + 1) / (E - 1)) - 4)
           * (2 * k_b * TCMB * (nu ^ 2 / c_light ^ 2) * (x / (E - 1)))\<bar> \<le> 10 ^ 248 * 10 ^ 40"
    by (rule np_mul_bounded [OF pb bvb]) simp
  then have R: "np_mul (Fin (y * (x * E / (E - 1)) * (x * ((E + 1) / (E - 1)) - 4)))
        (Fin (2 * k_b * TCMB * (nu ^ 2 / c_light ^ 2) * (x / (E - 1))))
      = Fin (y * (x * E / (E - 1)) * (x * ((E + 1) / (E - 1)) - 4)
           * (2 * k_b * TCMB * (nu ^ 2 / c_light ^ 2) * (x / (E - 1))))"
    by simp
  have "classical_tsz (Fin y) (Fin nu)
      = Fin (y * (x * E / (E - 1)) * (x * ((E + 1) / (E - 1)) - 4)
           * (2 * k_b * TCMB * (nu ^ 2 / c_light ^ 2) * (x / (E - 1))))"
    by (simp only: classical_tsz_def Let_def BVX X EX SUB NUM A YA ADD D2 M2 S2 P R)
  then show ?thesis by blast
qed

text \<open>
  Whenever \<open>classical_tsz\<close> returns a finite number, no intermediate value overflowed, and
  the number is the one the formula of the specification gives over the reals.
\<close>

lemma classical_tsz_value:
  assumes "classical_tsz (Fin y) (Fin nu) = Fin r"
  shows "r = spec_classical_tsz y nu \<and> classical_tsz_bv (Fin nu) = Fin (spec_B_nu nu)"
proof -
  define xb where "xb = classical_tsz_x_b (Fin nu)"
  define A where "A = np_div (np_mul xb (np_exp xb)) (np_sub (np_exp xb) (Fin 1))"
  define B where "B = np_sub (np_mul xb (np_div (np_add (np_exp xb) (Fin 1))
      (np_sub (np_exp xb) (Fin 1)))) (Fin 4)"
  have r: "np_mul (np_mul (np_mul (Fin y) A) B) (classical_tsz_bv (Fin nu)) = Fin r"
    using assms by (simp add: classical_tsz_def Let_def xb_def A_def B_def)
  from np_mul_FinD [OF r] obtain p b where p: "np_mul (np_mul (Fin y) A) B = Fin p"
    and b: "classical_tsz_bv (Fin nu) = Fin b" and rp: "r = p * b"
    by blast
  from np_mul_FinD [OF p] obtain q s where q: "np_mul (Fin y) A = Fin q" and s: "B = Fin s"
    and pq: "p = q * s"
    by blast
  from np_mul_Fin_leftD [OF q] obtain a where a: "A = Fin a" and qa: "q = y * a"
    by blast
  from x_b_exp_finite [OF a [unfolded A_def]]
  obtain x where x: "xb = Fin x" and ex: "np_exp xb = Fin (exp x)"
    and nz: "exp x - 1 \<noteq> 0" and sub1: "np_sub (np_exp xb) (Fin 1) = Fin (exp x - 1)"
    and av: "a = x * exp x / (exp x - 1)"
    by blast
  have xs: "x = spec_x_b nu" using x unfolding xb_def by (rule x_b_real)
  \<comment> \<open>the second bracket\<close>
  have s': "np_sub (np_mul (Fin x) (np_div (np_add (Fin (exp x)) (Fin 1)) (Fin (exp x - 1))))
      (Fin 4) = Fin s"
    using s unfolding B_def unfolding sub1 unfolding ex unfolding x .
  from np_sub_Fin_rightD [OF s'] obtain t
    where t: "np_mul (Fin x) (np_div (np_add (Fin (exp x)) (Fin 1)) (Fin (exp x - 1))) = Fin t"
      and st: "s = t - 4" by blast
  from np_mul_Fin_leftD [OF t] obtain u
    where u: "np_div (np_add (Fin (exp x)) (Fin 1)) (Fin (exp x - 1)) = Fin u"
      and tu: "t = x * u" by blast
  from np_div_Fin_rightD [OF u] obtain m
    where m: "np_add (Fin (exp x)) (Fin 1) = Fin m" and um: "u = m / (exp x - 1)" by blast
  from np_add_FinD [OF m] have mv: "m = exp x + 1" by auto
  have sv: "s = x * ((exp x + 1) / (exp x - 1)) - 4"
    unfolding st tu um mv ..
  \<comment> \<open>the prefactor\<close>
  have b': "np_mul (np_mul (Fin (2 * k_b * TCMB)) (np_div (np_pow (Fin nu) 2) (Fin (c_light ^ 2))))
      (np_div (Fin x) (Fin (exp x - 1))) = Fin b"
    using b unfolding classical_tsz_bv_def Let_def unfolding xb_def [symmetric] unfolding sub1 unfolding x .
  from np_mul_FinD [OF b'] obtain w z
    where w: "np_mul (Fin (2 * k_b * TCMB)) (np_div (np_pow (Fin nu) 2) (Fin (c_light ^ 2))) = Fin w"
      and z: "np_div (Fin x) (Fin (exp x - 1)) = Fin z" and bwz: "b = w * z" by blast
  from np_div_Fin_rightD [OF z] have zv: "z = x / (exp x - 1)" by auto
  from np_mul_Fin_leftD [OF w] obtain v
    where v: "np_div (np_pow (Fin nu) 2) (Fin (c_light ^ 2)) = Fin v"
      and wv: "w = 2 * k_b * TCMB * v" by blast
  from np_div_Fin_rightD [OF v] obtain nn
    where nn: "np_pow (Fin nu) 2 = Fin nn" and vn: "v = nn / c_light ^ 2" by blast
  from np_pow_FinD [OF nn] have nv: "nn = nu ^ 2" .
  have bv: "b = 2 * k_b * TCMB * (nu ^ 2 / c_light ^ 2) * (x / (exp x - 1))"
    unfolding bwz wv vn nv zv ..
  have kT: "k_b * TCMB \<noteq> 0" by (simp add: k_b_def TCMB_def)
  have e1: "2 * k_b * TCMB * spec_x_b nu = 2 * h_p * nu"
    using kT by (simp add: spec_x_b_def)
  have "2 * k_b * TCMB * (nu ^ 2 / c_light ^ 2) * (spec_x_b nu / (exp x - 1))
      = (2 * k_b * TCMB * spec_x_b nu) * (nu ^ 2 / c_light ^ 2) / (exp x - 1)"
    by simp
  also have "\<dots> = (2 * h_p * nu) * (nu ^ 2 / c_light ^ 2) / (exp x - 1)"
    by (simp only: e1)
  also have "\<dots> = (2 * h_p * nu ^ 3 / c_light ^ 2) / (exp x - 1)"
    by (simp add: power3_eq_cube power2_eq_square)
  finally have "2 * k_b * TCMB * (nu ^ 2 / c_light ^ 2) * (spec_x_b nu / (exp x - 1))
      = (2 * h_p * nu ^ 3 / c_light ^ 2) / (exp x - 1)" .
  then have bs: "b = spec_B_nu nu"
    unfolding bv spec_B_nu_def xs [symmetric] by (simp add: xs)
  have "r = y * (x * exp x / (exp x - 1)) * (x * (exp x + 1) / (exp x - 1) - 4) * spec_B_nu nu"
    unfolding rp pq qa av sv bs by simp
  then have "r = spec_classical_tsz y nu"
    by (simp add: spec_classical_tsz_def Let_def xs)
  with b bs show ?thesis by simp
qed

text \<open>
  Claim C6, as stated: \<open>classical_tsz(y, frequency)\<close> equals the formula of the
  specification, for every \<open>y\<close> and frequency. At \<open>nu = 1e14\<close> Hz the dimensionless
  frequency \<open>x_b\<close> is about 1761 and \<open>np.exp(x_b)\<close> overflows to \<open>inf\<close>; the first
  bracket \<open>x_b * exp(x_b) / (exp(x_b) - 1)\<close> is \<open>inf / inf = nan\<close>, and the function
  returns \<open>nan\<close> for \<open>y = 1\<close>, while the formula has a finite value there.
\<close>

theorem classical_tsz_overflow_counterexample:
  "classical_tsz (Fin 1) (Fin (10 ^ 14)) = NaN"
proof -
  have X: "classical_tsz_x_b (Fin (10 ^ 14)) = Fin (xfac * 10 ^ 14)"
    unfolding classical_tsz_x_b_def xfac_def [symmetric] by (rule d_b_x_large)
  have pos: "0 < xfac * 10 ^ 14" using xfac_pos by simp
  have A: "np_div (np_mul (Fin (xfac * 10 ^ 14)) PInf) (np_sub PInf (Fin 1)) = NaN"
    using pos by (simp add: np_sub_def)
  show ?thesis
    unfolding classical_tsz_def Let_def X exp_large A by simp
qed

text \<open>
  Claim C6, amended: for every frequency from 1 Hz to 10 THz (the band holds the 143 GHz the
  program uses) and every Compton-y of magnitude at most 1, \<open>classical_tsz(y, frequency)\<close>
  is finite and equals \<open>y [x_b e^x_b/(e^x_b - 1)] [x_b (e^x_b + 1)/(e^x_b - 1) - 4] B_nu\<close>,
  and the prefactor \<open>bv\<close> of the code equals the blackbody intensity \<open>B_nu\<close>. The
  equality is that of exact arithmetic: the rounding of each floating-point operation is not
  part of the number model.
\<close>

theorem classical_tsz_formula_in_band:
  assumes "1 \<le> nu" and "nu \<le> 10 ^ 13" and "\<bar>y\<bar> \<le> 1"
  shows "classical_tsz (Fin y) (Fin nu) = Fin (spec_classical_tsz y nu) \<and>
     classical_tsz_bv (Fin nu) = Fin (spec_B_nu nu)"
proof -
  from classical_tsz_finite [OF assms] obtain r
    where r: "classical_tsz (Fin y) (Fin nu) = Fin r" by blast
  from classical_tsz_value [OF r] r show ?thesis by simp
qed

theorem classical_tsz_formula_in_band_witness:
  "classical_tsz (Fin 1) (Fin (143 * 10 ^ 9)) = Fin (spec_classical_tsz 1 (143 * 10 ^ 9)) \<and>
   classical_tsz_bv (Fin (143 * 10 ^ 9)) = Fin (spec_B_nu (143 * 10 ^ 9))"
  using classical_tsz_formula_in_band [of "143 * 10 ^ 9" 1] by simp

section \<open>The monopole of the power spectra\<close>

lemma overflow_zero: "overflow 0 = Fin 0"
  using MAXF_pos by (simp add: overflow_def)

lemma dl_to_cl_monopole:
  assumes "dl \<noteq> []"
  shows "\<exists>cl. dl_to_cl dl = Inr cl \<and> cl ! 0 = NaN"
proof -
  from assms have len: "0 < length dl" by simp
  have fac0: "np_div (np_div (Fin (real (0 * (0 + 1)))) (Fin 2)) (Fin pi) = Fin 0"
    by (simp add: overflow_zero)
  have val0: "np_div (np_mul (np_mul (Fin (TCMB ^ 2)) (Fin 0)) (Fin (10 ^ 12))) (Fin 0) = NaN"
    by (simp add: overflow_zero)
  show ?thesis
    using assms len
    by (simp add: dl_to_cl_def Let_def fac0 val0 overflow_zero)
qed

text \<open>
  Claim C2: in every conversion from the \<open>D_l\<close> convention to \<open>C_l\<close> the value at
  \<open>l = 0\<close> is zero and the division by \<open>l(l+1)/2pi\<close> is guarded there. The code sets
  \<open>dl_tt[0] = 0\<close> and then divides by \<open>dl_fac\<close>, whose entry at \<open>l = 0\<close> is zero
  too: the quotient \<open>0.0 / 0.0\<close> is \<open>nan\<close>. So the monopole of \<open>cl_tt\<close> is \<open>nan\<close>,
  not zero, for the flat spectra of \<open>create_ksz_map\<close> and \<open>create_tsz_map\<close> and for
  every spectrum the power-spectrum solver can hand to \<open>create_cmb_map\<close>.
\<close>

theorem monopole_is_nan:
  "(\<exists>cl. dl_to_cl ksz_dl_tt = Inr cl \<and> cl ! 0 = NaN) \<and>
   (\<exists>cl. dl_to_cl tsz_dl_tt = Inr cl \<and> cl ! 0 = NaN) \<and>
   (\<forall>d ds. \<exists>cl. dl_to_cl (d # ds) = Inr cl \<and> cl ! 0 = NaN)"
proof -
  have "ksz_dl_tt \<noteq> []" "tsz_dl_tt \<noteq> []"
    by (simp_all add: ksz_dl_tt_def tsz_dl_tt_def)
  then show ?thesis
    using dl_to_cl_monopole by blast
qed

section \<open>Local-background subtraction on constant maps\<close>

lemma slice_bound_le: "slice_bound i n \<le> n"
  by (auto simp: slice_bound_def max_def)

lemma get2_const: "i < r \<Longrightarrow> k < n \<Longrightarrow> get2 (const_arr r n v) i k = v"
proof -
  assume i: "i < r" and k: "k < n"
  have "i * n + k < Suc i * n" using k by simp
  also have "\<dots> \<le> r * n" using i by (intro mult_le_mono1) simp
  finally show ?thesis by (simp add: get2_def const_arr_def)
qed

lemma concat_replicate_replicate: "concat (replicate a (replicate b v)) = replicate (a * b) v"
  by (induction a) (simp_all add: replicate_add)

lemma slice2_const_data:
  "adata (slice2 (const_arr r n v) r0 r1 c0 c1) =
     replicate ((slice_bound r1 r - slice_bound r0 r) * (slice_bound c1 n - slice_bound c0 n)) v"
proof -
  define rlo rhi clo chi where "rlo = slice_bound r0 r" and "rhi = slice_bound r1 r"
    and "clo = slice_bound c0 n" and "chi = slice_bound c1 n"
  have rhi: "rhi \<le> r" and chi: "chi \<le> n" by (simp_all add: rhi_def chi_def slice_bound_le)
  have row: "map (\<lambda>k. get2 (const_arr r n v) i k) [clo..<chi] = replicate (chi - clo) v"
    if "i < r" for i
  proof -
    have "map (\<lambda>k. get2 (const_arr r n v) i k) [clo..<chi] = map (\<lambda>k. v) [clo..<chi]"
      using that chi by (intro map_cong) (auto simp: get2_const)
    then show ?thesis by (simp add: map_replicate_const)
  qed
  have "map (\<lambda>i. map (\<lambda>k. get2 (const_arr r n v) i k) [clo..<chi]) [rlo..<rhi]
      = map (\<lambda>i. replicate (chi - clo) v) [rlo..<rhi]"
    using rhi by (intro map_cong) (auto simp: row)
  also have "\<dots> = replicate (rhi - rlo) (replicate (chi - clo) v)"
    by (simp add: map_replicate_const)
  finally show ?thesis
    by (simp add: slice2_def Let_def const_arr_def concat_replicate_replicate
        rlo_def rhi_def clo_def chi_def)
qed

lemma foldl_np_add_replicate:
  "\<bar>a\<bar> + real m * \<bar>c\<bar> \<le> MAXF \<Longrightarrow>
     foldl np_add (Fin a) (replicate m (Fin c)) = Fin (a + real m * c)"
proof (induction m arbitrary: a)
  case 0
  then show ?case by simp
next
  case (Suc m)
  have "\<bar>a + c\<bar> \<le> \<bar>a\<bar> + \<bar>c\<bar>" by simp
  also have "\<dots> \<le> \<bar>a\<bar> + real (Suc m) * \<bar>c\<bar>"
    by (simp add: algebra_simps mult_nonneg_nonneg)
  finally have ac: "\<bar>a + c\<bar> \<le> MAXF" using Suc.prems by linarith
  have "\<bar>a + c\<bar> + real m * \<bar>c\<bar> \<le> \<bar>a\<bar> + real (Suc m) * \<bar>c\<bar>"
    by (simp add: algebra_simps)
  then have "\<bar>a + c\<bar> + real m * \<bar>c\<bar> \<le> MAXF" using Suc.prems by linarith
  from Suc.IH [OF this] ac show ?case
    by (simp add: overflow_Fin algebra_simps)
qed

lemma np_sum_replicate:
  "real m * \<bar>c\<bar> \<le> MAXF \<Longrightarrow> np_sum (replicate m (Fin c)) = Fin (real m * c)"
  using foldl_np_add_replicate [of 0 m c] by (simp add: np_sum_def)

lemma np_mean_const:
  assumes "0 < m" and "real m * \<bar>c\<bar> \<le> MAXF"
  shows "np_div (np_sum (replicate m (Fin c))) (Fin (real m)) = Fin c"
proof -
  have "1 * \<bar>c\<bar> \<le> real m * \<bar>c\<bar>" using assms(1) by (intro mult_right_mono) auto
  then have "\<bar>c\<bar> \<le> MAXF" using assms(2) by linarith
  then show ?thesis
    using assms by (simp add: np_sum_replicate overflow_Fin)
qed

lemma pixel_in_bounds:
  "0 \<le> i \<Longrightarrow> i < int (nrows a) \<Longrightarrow> 0 \<le> j \<Longrightarrow> j < int (ncols a) \<Longrightarrow>
     pixel a i j = Inr (get2 a (nat i) (nat j))"
  by (simp add: pixel_def py_index_def)


lemma pixel_col_out_of_bounds: "int (ncols a) \<le> j \<Longrightarrow> pixel a i j \<noteq> Inr v"
  by (auto simp: pixel_def py_index_def split: sum.splits)

lemma background_subtracted_const:
  assumes "2 \<le> long" "long < 998" "2 \<le> lat" "lat < 998"
    and "long < int n" "lat < int n" and "25 * \<bar>c\<bar> \<le> MAXF"
  shows "background_subtracted (const_arr n n (Fin c)) long lat = Inr (Fin 0)"
proof -
  define A where "A = const_arr n n (Fin c)"
  have shape: "nrows A = n" "ncols A = n" by (simp_all add: A_def const_arr_def)
  have px: "pixel A long lat = Inr (Fin c)"
    using assms by (simp add: pixel_in_bounds shape) (simp add: A_def get2_const)
  define kr where "kr = slice_bound (long + 3) n - slice_bound (long - 2) n"
  define kc where "kc = slice_bound (lat + 3) n - slice_bound (lat - 2) n"
  have kr: "0 < kr" "kr \<le> 5" using assms(1,5) by (auto simp: kr_def slice_bound_def)
  have kc: "0 < kc" "kc \<le> 5" using assms(3,6) by (auto simp: kc_def slice_bound_def)
  have data: "adata (slice2 A (long - 2) (long + 3) (lat - 2) (lat + 3)) = replicate (kr * kc) (Fin c)"
    by (simp add: A_def slice2_const_data kr_def kc_def)
  have pos: "0 < kr * kc" using kr kc by simp
  have "kr * kc \<le> 5 * 5" using kr kc by (intro mult_le_mono) auto
  then have "real (kr * kc) \<le> real (5 * 5)" by (rule of_nat_mono)
  then have "real (kr * kc) \<le> 25" by simp
  then have "real (kr * kc) * \<bar>c\<bar> \<le> 25 * \<bar>c\<bar>" by (intro mult_right_mono) auto
  then have le: "real (kr * kc) * \<bar>c\<bar> \<le> MAXF" using assms(7) by linarith
  have mean: "np_mean (slice2 A (long - 2) (long + 3) (lat - 2) (lat + 3)) = Fin c"
    unfolding np_mean_def data using np_mean_const [OF pos le] by simp
  show ?thesis
    unfolding A_def [symmetric] background_subtracted_def px mean
    by (simp add: np_sub_def overflow_zero)
qed

text \<open>
  Claim C7, amended: for a constant-valued square map whose constant is an integer of
  magnitude at most \<open>1e14\<close> (the all-zero map included) and a sampled coordinate
  \<open>(long, lat)\<close> in \<open>[2,998)\<close> that lies inside the map, the background-subtracted
  amplitude is exactly zero. For such a constant the sum of the at most 25 neighbours and its
  division by their number are exact in floating point as well.
\<close>

theorem constant_map_amplitude_zero:
  assumes "2 \<le> long" "long < 998" "2 \<le> lat" "lat < 998"
    and "long < int n" "lat < int n" and "\<bar>k\<bar> \<le> 10 ^ 14"
  shows "background_subtracted (const_arr n n (Fin (real_of_int k))) long lat = Inr (Fin 0)"
proof (rule background_subtracted_const [OF assms(1-6)])
  have "real_of_int \<bar>k\<bar> \<le> real_of_int (10 ^ 14)"
    using assms(7) by (simp only: of_int_le_iff)
  then have "\<bar>real_of_int k\<bar> \<le> 10 ^ 14" by simp
  then have "\<bar>25 * real_of_int k\<bar> \<le> 25 * 10 ^ 14" by (simp add: abs_mult)
  then have "\<bar>25 * real_of_int k\<bar> \<le> MAXF" by (rule abs_le_MAXF) simp
  then show "25 * \<bar>real_of_int k\<bar> \<le> MAXF" by (simp add: abs_mult)
qed

theorem constant_map_amplitude_zero_witness:
  "background_subtracted (const_arr 1000 1000 (Fin 1)) 500 500 = Inr (Fin 0)"
  using constant_map_amplitude_zero [of 500 500 1000 1] by simp

lemma replicate_25: "replicate 25 v = v # v # replicate 23 v"
  by (simp add: numeral_eq_Suc)

lemma foldl_np_add_PInf: "foldl np_add PInf (replicate m (Fin c)) = PInf"
  by (induction m) simp_all

lemma np_sum_overflow:
  assumes "0 \<le> c" "c \<le> MAXF" "MAXF < c + c"
  shows "np_sum (replicate 25 (Fin c)) = PInf"
  unfolding replicate_25 using assms MAXF_pos
  by (simp add: np_sum_def overflow_def foldl_np_add_PInf)

lemma background_overflow:
  assumes "0 \<le> c" "c \<le> MAXF" "MAXF < c + c"
  shows "background_subtracted (const_arr 1000 1000 (Fin c)) 2 2 = Inr NInf"
proof -
  define A where "A = const_arr 1000 1000 (Fin c)"
  have shape: "nrows A = 1000" "ncols A = 1000" by (simp_all add: A_def const_arr_def)
  have "get2 A 2 2 = Fin c" unfolding A_def by (rule get2_const) simp_all
  then have px: "pixel A 2 2 = Inr (Fin c)"
    using pixel_in_bounds [of 2 A 2] by (simp add: shape)
  have "slice_bound (2 - 2) 1000 = 0" "slice_bound (2 + 3) 1000 = 5"
    by (simp_all add: slice_bound_def)
  then have data: "adata (slice2 A (2 - 2) (2 + 3) (2 - 2) (2 + 3)) = replicate 25 (Fin c)"
    by (simp add: A_def slice2_const_data)
  have mean: "np_mean (slice2 A (2 - 2) (2 + 3) (2 - 2) (2 + 3)) = PInf"
    unfolding np_mean_def data np_sum_overflow [OF assms] by simp
  show ?thesis
    unfolding A_def [symmetric] background_subtracted_def px mean
    by (simp add: np_sub_def)
qed

text \<open>
  Claim C7, as stated: on a constant-valued map the amplitude is exactly zero for every
  sampled coordinate. On the 1000 by 1000 map with the constant \<open>1e308\<close> the sum of the 25
  neighbours overflows to \<open>inf\<close>, so does their mean, and the amplitude at \<open>(2, 2)\<close> is
  \<open>1e308 - inf = -inf\<close>.
\<close>

theorem constant_map_amplitude_counterexample:
  "background_subtracted (const_arr 1000 1000 (Fin (10 ^ 308))) 2 2 = Inr NInf"
proof (rule background_overflow)
  show "(0::real) \<le> 10 ^ 308" by simp
  show "10 ^ 308 \<le> MAXF" by (rule MAXF_ge)
  show "MAXF < 10 ^ 308 + 10 ^ 308" by (simp add: MAXF_def)
qed

section \<open>The size of the kSZ and tSZ maps and the sampled coordinates\<close>

lemma int_of_quotient_examples:
  "int_of_quotient 3000 4 = Inr 750" "int_of_quotient 3000 3 = Inr 1000"
  "int_of_quotient 3000 1000 = Inr 3" "int_of_quotient 200 1000 = Inr 0"
  "int_of_quotient 3000 3000 = Inr 1" "int_of_quotient 200 3000 = Inr 0"
  by (simp_all add: int_of_quotient_def overflow_small)

lemma reshape_square_shape:
  assumes "reshape_square ms nx = Inr T"
  shows "0 \<le> nx \<and> nrows T = nat nx \<and> ncols T = nat nx \<and> length (adata T) = nat nx * nat nx"
proof -
  from assms have nx: "0 \<le> nx" and len: "int (length (concat (map adata ms))) = nx * nx"
    and T: "T = \<lparr>nrows = nat nx, ncols = nat nx, adata = concat (map adata ms)\<rparr>"
    by (auto simp: reshape_square_def Let_def split: if_splits)
  from len have "length (concat (map adata ms)) = nat (nx * nx)" by linarith
  also have "\<dots> = nat nx * nat nx" using nx by (simp add: nat_mult_distrib)
  finally show ?thesis using nx T by simp
qed

lemma sz_temperature_map_shape:
  assumes "sz_temperature_map c dl res seed = Inr (T, g)"
  shows "\<exists>nx. int_of_quotient 3000 res = Inr nx \<and> 0 \<le> nx \<and> nrows T = nat nx \<and> ncols T = nat nx
           \<and> length (adata T) = nat nx * nat nx"
  using assms
  by (auto simp: sz_temperature_map_def Let_def arr_scale_def
      split: sum.splits prod.splits dest!: reshape_square_shape)

lemma set2_shape [simp]:
  "nrows (set2 a i k v) = nrows a" "ncols (set2 a i k v) = ncols a"
  "length (adata (set2 a i k v)) = length (adata a)"
  by (simp_all add: set2_def)

lemma fold_preserves:
  assumes "\<And>x s. P (f x s) = P s"
  shows "P (fold f xs s) = P s"
  by (induction xs arbitrary: s) (simp_all add: assms)

lemma solve_pixels_shape:
  "nrows (solve_pixels c T Y) = nrows Y" "ncols (solve_pixels c T Y) = ncols Y"
  "length (adata (solve_pixels c T Y)) = length (adata Y)"
  unfolding solve_pixels_def
  by (rule fold_preserves, rule fold_preserves, simp)+




section \<open>The parameter matrix\<close>

lemma randint_range:
  assumes "low < high" and "randint c low high g = (v, g')"
  shows "low \<le> v \<and> v < high"
proof -
  from assms(2) obtain r where v: "v = low + int r mod (high - low)"
    by (auto simp: randint_def split: prod.splits)
  have "0 \<le> int r mod (high - low)" "int r mod (high - low) < high - low"
    using assms(1) by simp_all
  then show ?thesis using v by linarith
qed

lemma param_loop_result:
  assumes "param_loop c ksz tsz amp is params g = Inr (params', g')"
  shows "\<exists>rows. params' = params @ rows \<and> length rows = length is \<and>
      (\<forall>j<length is. \<exists>sl st lo la aksz atsz.
          0 \<le> sl \<and> sl < 160 \<and> 0 \<le> st \<and> st < 160 \<and> 2 \<le> lo \<and> lo < 998 \<and> 2 \<le> la \<and> la < 998 \<and>
          is ! j < length amp \<and>
          background_subtracted ksz lo la = Inr aksz \<and>
          background_subtracted tsz lo la = Inr atsz \<and>
          rows ! j = [Fin (real_of_int sl), Fin (real_of_int st), amp ! (is ! j), aksz, atsz])"
  using assms
proof (induction "is" arbitrary: params g)
  case Nil
  then show ?case by simp
next
  case (Cons i rest)
  obtain sl g1 where r1: "randint c 0 160 g = (sl, g1)" by (cases "randint c 0 160 g")
  obtain st g2 where r2: "randint c 0 160 g1 = (st, g2)" by (cases "randint c 0 160 g1")
  obtain lo g3 where r3: "randint c 2 998 g2 = (lo, g3)" by (cases "randint c 2 998 g2")
  obtain la g4 where r4: "randint c 2 998 g3 = (la, g4)" by (cases "randint c 2 998 g3")
  from Cons.prems r1 r2 r3 r4 obtain aksz atsz
    where ak: "background_subtracted ksz lo la = Inr aksz"
      and at: "background_subtracted tsz lo la = Inr atsz"
      and i: "i < length amp"
      and rec: "param_loop c ksz tsz amp rest
         (params @ [[Fin (real_of_int sl), Fin (real_of_int st), amp ! i, aksz, atsz]]) g4
           = Inr (params', g')"
    by (auto split: sum.splits if_splits)
  define row where "row = [Fin (real_of_int sl), Fin (real_of_int st), amp ! i, aksz, atsz]"
  from Cons.IH [OF rec [folded row_def]] obtain rows
    where rows: "params' = (params @ [row]) @ rows" "length rows = length rest"
      and each: "\<forall>j<length rest. \<exists>sl st lo la aksz atsz.
          0 \<le> sl \<and> sl < 160 \<and> 0 \<le> st \<and> st < 160 \<and> 2 \<le> lo \<and> lo < 998 \<and> 2 \<le> la \<and> la < 998 \<and>
          rest ! j < length amp \<and>
          background_subtracted ksz lo la = Inr aksz \<and>
          background_subtracted tsz lo la = Inr atsz \<and>
          rows ! j = [Fin (real_of_int sl), Fin (real_of_int st), amp ! (rest ! j), aksz, atsz]"
    by blast
  have b: "0 \<le> sl \<and> sl < 160" "0 \<le> st \<and> st < 160" "2 \<le> lo \<and> lo < 998" "2 \<le> la \<and> la < 998"
    using randint_range [OF _ r1] randint_range [OF _ r2] randint_range [OF _ r3]
      randint_range [OF _ r4] by simp_all
  have "\<exists>sl st lo la aksz atsz.
          0 \<le> sl \<and> sl < 160 \<and> 0 \<le> st \<and> st < 160 \<and> 2 \<le> lo \<and> lo < 998 \<and> 2 \<le> la \<and> la < 998 \<and>
          (i # rest) ! j < length amp \<and>
          background_subtracted ksz lo la = Inr aksz \<and>
          background_subtracted tsz lo la = Inr atsz \<and>
          (row # rows) ! j = [Fin (real_of_int sl), Fin (real_of_int st), amp ! ((i # rest) ! j), aksz, atsz]"
    if "j < length (i # rest)" for j
  proof (cases j)
    case 0
    with b ak at i show ?thesis unfolding row_def by auto
  next
    case (Suc j')
    with that each show ?thesis by simp
  qed
  with rows show ?case
    by (intro exI [of _ "row # rows"]) simp
qed

text \<open>
  Claim C4: whenever \<open>create_parameter_file\<close> reaches the point where it stores the
  matrix, the matrix has exactly \<open>R\<close> rows of five entries, the sentinel row being
  dropped; row \<open>j\<close> holds two catalog coordinates in \<open>[0,160)\<close>, the \<open>j\<close>-th CMB
  amplitude, and the background-subtracted kSZ and tSZ amplitudes read at map coordinates in
  \<open>[2,998)\<close>.
\<close>

theorem parameter_matrix_shape_and_ranges:
  assumes "create_parameter_file c res R g0 = Inr (params, g')"
  shows "length params = R \<and> list_all (\<lambda>row. length row = 5) params \<and>
     (\<exists>amp_cmb passed g1 ksz_map g2 tsz_map g3.
        create_cmb_map c res R 40 g0 = Inr (amp_cmb, passed, g1) \<and>
        create_ksz_map c res 40 g1 = Inr (ksz_map, g2) \<and>
        create_tsz_map c res 40 g2 = Inr (tsz_map, g3) \<and>
        (\<forall>j<R. \<exists>sides_long sides_lat long lat amp_ksz amp_tsz.
           0 \<le> sides_long \<and> sides_long < 160 \<and> 0 \<le> sides_lat \<and> sides_lat < 160 \<and>
           2 \<le> long \<and> long < 998 \<and> 2 \<le> lat \<and> lat < 998 \<and>
           background_subtracted ksz_map long lat = Inr amp_ksz \<and>
           background_subtracted tsz_map long lat = Inr amp_tsz \<and>
           params ! j = [Fin (real_of_int sides_long), Fin (real_of_int sides_lat),
                         amp_cmb ! j, amp_ksz, amp_tsz]))"
proof -
  from assms obtain amp_cmb passed g1 ksz_map g2 tsz_map g3 ps g4
    where cmb: "create_cmb_map c res R 40 g0 = Inr (amp_cmb, passed, g1)"
      and ksz: "create_ksz_map c res 40 g1 = Inr (ksz_map, g2)"
      and tsz: "create_tsz_map c res 40 g2 = Inr (tsz_map, g3)"
      and loop: "param_loop c ksz_map tsz_map amp_cmb [0..<R]
                   [[Fin 0, Fin 0, Fin 0, Fin 0, Fin 0]] g3 = Inr (ps, g4)"
      and res: "params = drop 1 ps"
    by (auto simp: create_parameter_file_def split: sum.splits)
  from param_loop_result [OF loop] obtain rows
    where ps: "ps = [[Fin 0, Fin 0, Fin 0, Fin 0, Fin 0]] @ rows" and len: "length rows = R"
      and each: "\<forall>j<R. \<exists>sl st lo la aksz atsz.
          0 \<le> sl \<and> sl < 160 \<and> 0 \<le> st \<and> st < 160 \<and> 2 \<le> lo \<and> lo < 998 \<and> 2 \<le> la \<and> la < 998 \<and>
          [0..<R] ! j < length amp_cmb \<and>
          background_subtracted ksz_map lo la = Inr aksz \<and>
          background_subtracted tsz_map lo la = Inr atsz \<and>
          rows ! j = [Fin (real_of_int sl), Fin (real_of_int st), amp_cmb ! ([0..<R] ! j), aksz, atsz]"
    by auto
  have params: "params = rows" using res ps by simp
  have five: "length (rows ! j) = 5" if "j < R" for j
    using each that by fastforce
  have "list_all (\<lambda>row. length row = 5) rows"
    unfolding list_all_length using five len by simp
  moreover have "\<forall>j<R. \<exists>sides_long sides_lat long lat amp_ksz amp_tsz.
           0 \<le> sides_long \<and> sides_long < 160 \<and> 0 \<le> sides_lat \<and> sides_lat < 160 \<and>
           2 \<le> long \<and> long < 998 \<and> 2 \<le> lat \<and> lat < 998 \<and>
           background_subtracted ksz_map long lat = Inr amp_ksz \<and>
           background_subtracted tsz_map long lat = Inr amp_tsz \<and>
           rows ! j = [Fin (real_of_int sides_long), Fin (real_of_int sides_lat),
                         amp_cmb ! j, amp_ksz, amp_tsz]"
  proof (intro allI impI)
    fix j assume j: "j < R"
    with each obtain sl st lo la aksz atsz where
      "0 \<le> sl \<and> sl < 160 \<and> 0 \<le> st \<and> st < 160 \<and> 2 \<le> lo \<and> lo < 998 \<and> 2 \<le> la \<and> la < 998 \<and>
          [0..<R] ! j < length amp_cmb \<and>
          background_subtracted ksz_map lo la = Inr aksz \<and>
          background_subtracted tsz_map lo la = Inr atsz \<and>
          rows ! j = [Fin (real_of_int sl), Fin (real_of_int st), amp_cmb ! ([0..<R] ! j), aksz, atsz]"
      by blast
    with j show "\<exists>sides_long sides_lat long lat amp_ksz amp_tsz.
           0 \<le> sides_long \<and> sides_long < 160 \<and> 0 \<le> sides_lat \<and> sides_lat < 160 \<and>
           2 \<le> long \<and> long < 998 \<and> 2 \<le> lat \<and> lat < 998 \<and>
           background_subtracted ksz_map long lat = Inr amp_ksz \<and>
           background_subtracted tsz_map long lat = Inr amp_tsz \<and>
           rows ! j = [Fin (real_of_int sides_long), Fin (real_of_int sides_lat),
                         amp_cmb ! j, amp_ksz, amp_tsz]"
      by auto
  qed
  ultimately show ?thesis
    using cmb ksz tsz len params by blast
qed

section \<open>Reproducibility\<close>

text \<open>
  Claim C5: the collaborators being functions of their arguments and of the generator state,
  every map builder and \<open>create_parameter_file\<close> start by seeding the generator, so what
  they return does not depend on the state the generator was in before the call: two calls
  with the same arguments return the same maps, the same parameter matrix and the same final
  generator state, whatever happened before them.
\<close>

theorem seeded_runs_are_reproducible:
  "create_cmb_map c res R seed g = create_cmb_map c res R seed g' \<and>
   create_ksz_map c res seed g = create_ksz_map c res seed g' \<and>
   create_tsz_map c res seed g = create_tsz_map c res seed g' \<and>
   create_parameter_file c res R g = create_parameter_file c res R g'"
  by (simp add: create_cmb_map_def create_ksz_map_def create_tsz_map_def
      create_parameter_file_def)

section \<open>The realization loop of create-cmb-map\<close>

lemma anis_loop_passed:
  "anis_loop c sim args sigma n acc passed g = Inr (acc', passed', g') \<Longrightarrow>
     passed' = passed @ replicate n [(''T'', sim)]"
proof (induction n arbitrary: acc passed g)
  case 0
  then show ?case by simp
next
  case (Suc n)
  from Suc.prems obtain r g1 d
    where "anis_loop c sim args sigma n (acc @ [d]) (passed @ [[(''T'', sim)]]) g1
        = Inr (acc', passed', g')"
    by (auto simp: Let_def split: sum.splits)
  from Suc.IH [OF this] show ?case
    by (simp add: replicate_append_same)
qed

lemma anis_loop_results:
  "anis_loop c sim args sigma n acc passed g = Inr (acc', passed', g') \<Longrightarrow>
     \<exists>ds. length (inpaint_results c [(''T'', sim)] args sigma n g) = n \<and>
          map central_difference (inpaint_results c [(''T'', sim)] args sigma n g) = map Inr ds \<and>
          acc' = acc @ ds"
proof (induction n arbitrary: acc passed g)
  case 0
  then show ?case by simp
next
  case (Suc n)
  from Suc.prems obtain r g1 d
    where call: "inpainting c [(''T'', sim)] args sigma g = Inr (r, g1)"
      and d: "central_difference r = Inr d"
      and rec: "anis_loop c sim args sigma n (acc @ [d]) (passed @ [[(''T'', sim)]]) g1
        = Inr (acc', passed', g')"
    by (auto simp: Let_def split: sum.splits)
  from Suc.IH [OF rec] obtain ds
    where "length (inpaint_results c [(''T'', sim)] args sigma n g1) = n"
      and "map central_difference (inpaint_results c [(''T'', sim)] args sigma n g1) = map Inr ds"
      and "acc' = (acc @ [d]) @ ds"
    by blast
  with call d show ?case
    by (intro exI [of _ "d # ds"]) simp
qed

lemma cmb_setup_sum:
  assumes "cmb_setup c res seed = Inr (sim_map, args, sigma_dic, g3)"
  shows "\<exists>mapparams el cl_tt bl nl cmb g1 noise g2.
      make_gaussian_realisation c mapparams el cl_tt (Some bl) (seed_state c seed) = Inr (cmb, g1) \<and>
      make_gaussian_realisation c mapparams el nl None g1 = Inr (noise, g2) \<and>
      arr3_add [cmb] [noise] = Inr sim_map"
proof -
  define el where "el = [0..<length (camb_totCL_TT c)]"
  from assms obtain cl_tt nx cmb g1 noise g2 where
    "make_gaussian_realisation c (nx, nx, res, res) el cl_tt
       (Some (get_bl c res el (nx, nx, res, res))) (seed_state c seed) = Inr (cmb, g1)"
    "make_gaussian_realisation c (nx, nx, res, res) el (get_nl c 1 el) None g1 = Inr (noise, g2)"
    "arr3_add [cmb] [noise] = Inr sim_map"
    unfolding cmb_setup_def Let_def el_def
    by (auto split: sum.splits prod.splits)
  then show ?thesis by blast
qed

text \<open>
  Claim C9: in every run of \<open>create_cmb_map\<close> that returns, the composite map is built
  once before the loop, as the sum of one signal realization and one noise realization drawn
  one after the other from the seeded generator, and each of the \<open>R\<close> iterations hands
  this same map to the inpainting collaborator.
\<close>

theorem composite_map_built_once:
  assumes "create_cmb_map c res R seed g0 = Inr (out, passed, g')"
  shows "\<exists>mapparams el cl_tt bl nl cmb g1 noise g2 sim_map.
      make_gaussian_realisation c mapparams el cl_tt (Some bl) (seed_state c seed) = Inr (cmb, g1) \<and>
      make_gaussian_realisation c mapparams el nl None g1 = Inr (noise, g2) \<and>
      arr3_add [cmb] [noise] = Inr sim_map \<and>
      passed = replicate R [(''T'', sim_map)]"
proof -
  from assms obtain sim_map args sigma_dic g3 ds
    where su: "cmb_setup c res seed = Inr (sim_map, args, sigma_dic, g3)"
      and loop: "anis_loop c sim_map args sigma_dic R [] [] g3 = Inr (ds, passed, g')"
    by (auto simp: create_cmb_map_def split: sum.splits)
  from anis_loop_passed [OF loop] have "passed = replicate R [(''T'', sim_map)]" by simp
  with cmb_setup_sum [OF su] show ?thesis by blast
qed

lemma slice_central:
  assumes "34 \<le> nrows m" "34 \<le> ncols m"
  shows "slice2 m 33 34 33 34 = \<lparr>nrows = 1, ncols = 1, adata = [get2 m 33 33]\<rparr>"
proof -
  have "slice_bound 33 (nrows m) = 33" "slice_bound 34 (nrows m) = 34"
    "slice_bound 33 (ncols m) = 33" "slice_bound 34 (ncols m) = 34"
    using assms by (simp_all add: slice_bound_def)
  moreover have "[33..<34] = [33::nat]" by (simp add: upt_rec)
  ultimately show ?thesis by (simp add: slice2_def Let_def)
qed

lemma arr_binop_single:
  "arr_binop f \<lparr>nrows = Suc 0, ncols = Suc 0, adata = [x]\<rparr>
       \<lparr>nrows = Suc 0, ncols = Suc 0, adata = [y]\<rparr>
     = Inr \<lparr>nrows = Suc 0, ncols = Suc 0, adata = [f x y]\<rparr>"
  by (simp add: arr_binop_def broadcast_dim_def get2_def)

lemma central_difference_big:
  assumes "34 \<le> nrows inp" "34 \<le> ncols inp" "34 \<le> nrows filt" "34 \<le> ncols filt"
  shows "central_difference (a, inp, filt)
     = Inr \<lparr>nrows = 1, ncols = 1, adata = [np_sub (get2 filt 33 33) (get2 inp 33 33)]\<rparr>"
  using assms by (simp add: central_difference_def slice_central arr_binop_single)

lemma asarray_flatten_singles:
  "asarray_flatten (map (\<lambda>r. \<lparr>nrows = 1, ncols = 1, adata = [v r]\<rparr>) rs) = Inr (map v rs)"
proof -
  have "concat (map adata (map (\<lambda>r. \<lparr>nrows = 1, ncols = 1, adata = [v r]\<rparr>) rs)) = map v rs"
    by (induction rs) simp_all
  moreover have "list_all (\<lambda>a. nrows a = nrows (hd (map (\<lambda>r. \<lparr>nrows = 1, ncols = 1, adata = [v r]\<rparr>) rs))
        \<and> ncols a = ncols (hd (map (\<lambda>r. \<lparr>nrows = 1, ncols = 1, adata = [v r]\<rparr>) rs)))
      (map (\<lambda>r. \<lparr>nrows = 1, ncols = 1, adata = [v r]\<rparr>) rs)"
    by (cases rs) (simp_all add: list_all_iff)
  ultimately show ?thesis by (simp add: asarray_flatten_def)
qed

lemma cmb_anis_values:
  assumes run: "create_cmb_map c res R seed g0 = Inr (out, passed, g')"
    and su: "cmb_setup c res seed = Inr (sim_map, args, sigma_dic, g3)"
    and big: "list_all (\<lambda>(a, inp, filt). 34 \<le> nrows inp \<and> 34 \<le> ncols inp \<and>
                 34 \<le> nrows filt \<and> 34 \<le> ncols filt)
               (inpaint_results c [(''T'', sim_map)] args sigma_dic R g3)"
  shows "length (inpaint_results c [(''T'', sim_map)] args sigma_dic R g3) = R \<and>
     out = map (\<lambda>(a, inp, filt). np_mul (np_sub (get2 filt 33 33) (get2 inp 33 33)) (Fin (1 / 10 ^ 6)))
             (inpaint_results c [(''T'', sim_map)] args sigma_dic R g3)"
proof -
  define rs where "rs = inpaint_results c [(''T'', sim_map)] args sigma_dic R g3"
  define v where "v = (\<lambda>(a::arr2, inp, filt). np_sub (get2 filt 33 33) (get2 inp 33 33))"
  from run su obtain ds flat
    where loop: "anis_loop c sim_map args sigma_dic R [] [] g3 = Inr (ds, passed, g')"
      and flat: "asarray_flatten ds = Inr flat"
      and out: "out = map (\<lambda>v. np_mul v (Fin (1 / 10 ^ 6))) flat"
    by (auto simp: create_cmb_map_def split: sum.splits)
  from anis_loop_results [OF loop] obtain ds'
    where len: "length rs = R" and cd: "map central_difference rs = map Inr ds'" and "ds = [] @ ds'"
    unfolding rs_def by blast
  then have ds': "ds' = ds" by simp
  have h: "map central_difference rs = map (\<lambda>r. Inr \<lparr>nrows = 1, ncols = 1, adata = [v r]\<rparr>) rs"
    using big unfolding rs_def [symmetric]
    by (intro map_cong) (auto simp: list_all_iff v_def central_difference_big)
  have "map (Inr :: arr2 \<Rightarrow> pyerr + arr2) ds = map central_difference rs" unfolding cd ds' ..
  also note h
  finally have "map (Inr :: arr2 \<Rightarrow> pyerr + arr2) ds
      = map Inr (map (\<lambda>r. \<lparr>nrows = 1, ncols = 1, adata = [v r]\<rparr>) rs)"
    by (simp add: comp_def)
  then have dsv: "ds = map (\<lambda>r. \<lparr>nrows = 1, ncols = 1, adata = [v r]\<rparr>) rs"
    by (rule map_injective) simp
  from flat have "flat = map v rs" unfolding dsv asarray_flatten_singles by simp
  with out have "out = map (\<lambda>r. np_mul (v r) (Fin (1 / 10 ^ 6))) rs" by simp
  also have "\<dots> = map (\<lambda>(a, inp, filt). np_mul (np_sub (get2 filt 33 33) (get2 inp 33 33))
      (Fin (1 / 10 ^ 6))) rs"
    by (intro map_cong) (auto simp: v_def)
  finally show ?thesis using len unfolding rs_def by simp
qed

lemma central_difference_eq:
  "central_difference
     = (\<lambda>(a, inp, filt). arr_binop np_sub (slice2 filt 33 34 33 34) (slice2 inp 33 34 33 34))"
  by (auto simp: central_difference_def fun_eq_iff)

lemma cmb_anis_slices:
  assumes run: "create_cmb_map c res R seed g0 = Inr (out, passed, g')"
    and su: "cmb_setup c res seed = Inr (sim_map, args, sigma_dic, g3)"
  shows "length (inpaint_results c [(''T'', sim_map)] args sigma_dic R g3) = R \<and>
     (\<exists>ds flat.
        map central_difference (inpaint_results c [(''T'', sim_map)] args sigma_dic R g3)
          = map Inr ds \<and>
        asarray_flatten ds = Inr flat \<and>
        out = map (\<lambda>v. np_mul v (Fin (1 / 10 ^ 6))) flat)"
proof -
  from run su obtain ds flat
    where loop: "anis_loop c sim_map args sigma_dic R [] [] g3 = Inr (ds, passed, g')"
      and flat: "asarray_flatten ds = Inr flat"
      and out: "out = map (\<lambda>v. np_mul v (Fin (1 / 10 ^ 6))) flat"
    by (auto simp: create_cmb_map_def split: sum.splits)
  from anis_loop_results [OF loop] obtain ds'
    where len: "length (inpaint_results c [(''T'', sim_map)] args sigma_dic R g3) = R"
      and cd: "map central_difference (inpaint_results c [(''T'', sim_map)] args sigma_dic R g3)
          = map Inr ds'"
      and "ds = [] @ ds'"
    by blast
  then have "ds' = ds" by simp
  with len cd flat out show ?thesis by blast
qed

text \<open>
  Claim C1: in every run of \<open>create_cmb_map\<close> that returns, the loop made \<open>R\<close> calls of
  the inpainting collaborator; the estimate appended in an iteration is the slice
  \<open>[33:34, 33:34]\<close> of the filtered map of that call minus the same slice of its inpainted
  map, and the returned sequence is these differences, flattened and scaled by \<open>1e-6\<close>.
  When the maps returned have a pixel at index \<open>(33, 33)\<close>, the returned sequence is, call
  by call, the filtered map's pixel \<open>(33, 33)\<close> minus the inpainted map's, times \<open>1e-6\<close>.
\<close>

theorem cmb_anis_central_pixel:
  assumes "create_cmb_map c res R seed g0 = Inr (out, passed, g')"
    and "cmb_setup c res seed = Inr (sim_map, args, sigma_dic, g3)"
  shows "length (inpaint_results c [(''T'', sim_map)] args sigma_dic R g3) = R \<and>
     (\<exists>ds flat.
        map (\<lambda>(a, inp, filt). arr_binop np_sub (slice2 filt 33 34 33 34) (slice2 inp 33 34 33 34))
            (inpaint_results c [(''T'', sim_map)] args sigma_dic R g3)
          = map Inr ds \<and>
        asarray_flatten ds = Inr flat \<and>
        out = map (\<lambda>v. np_mul v (Fin (1 / 10 ^ 6))) flat) \<and>
     (list_all (\<lambda>(a, inp, filt). 34 \<le> nrows inp \<and> 34 \<le> ncols inp \<and>
                 34 \<le> nrows filt \<and> 34 \<le> ncols filt)
               (inpaint_results c [(''T'', sim_map)] args sigma_dic R g3) \<longrightarrow>
      out = map (\<lambda>(a, inp, filt). np_mul (np_sub (get2 filt 33 33) (get2 inp 33 33)) (Fin (1 / 10 ^ 6)))
              (inpaint_results c [(''T'', sim_map)] args sigma_dic R g3))"
proof -
  note s = cmb_anis_slices [OF assms, unfolded central_difference_eq]
  have v: "list_all (\<lambda>(a, inp, filt). 34 \<le> nrows inp \<and> 34 \<le> ncols inp \<and>
                 34 \<le> nrows filt \<and> 34 \<le> ncols filt)
               (inpaint_results c [(''T'', sim_map)] args sigma_dic R g3) \<longrightarrow>
      out = map (\<lambda>(a, inp, filt). np_mul (np_sub (get2 filt 33 33) (get2 inp 33 33)) (Fin (1 / 10 ^ 6)))
              (inpaint_results c [(''T'', sim_map)] args sigma_dic R g3)"
    using cmb_anis_values [OF assms] by blast
  show ?thesis
    using s [THEN conjunct1] s [THEN conjunct2] v by (intro conjI)
qed

section \<open>The pixel loops of create-tsz-map\<close>

lemma fold_update_length:
  "length (fold (\<lambda>k d. d[idx k := val k]) ks d) = length d"
  by (induction ks arbitrary: d) simp_all

lemma fold_update_untouched:
  "p \<notin> idx ` set ks \<Longrightarrow> fold (\<lambda>k d. d[idx k := val k]) ks d ! p = d ! p"
  by (induction ks arbitrary: d) auto

lemma fold_update_touched:
  "distinct (map idx ks) \<Longrightarrow> k \<in> set ks \<Longrightarrow> idx k < length d \<Longrightarrow>
     fold (\<lambda>k d. d[idx k := val k]) ks d ! idx k = val k"
proof (induction ks arbitrary: d)
  case Nil
  then show ?case by simp
next
  case (Cons k' ks)
  show ?case
  proof (cases "k \<in> set ks")
    case True
    with Cons show ?thesis by simp
  next
    case False
    with Cons.prems have k: "k = k'" and "idx k \<notin> idx ` set ks" by auto
    then show ?thesis using Cons.prems(3)
      by (simp add: fold_update_untouched)
  qed
qed

lemma row_index_inj:
  fixes i j k k' m :: nat
  assumes "k < m" "k' < m" "j * m + k' = i * m + k"
  shows "j = i"
proof -
  have "(j * m + k') div m = j" "(i * m + k) div m = i" using assms(1,2) by simp_all
  with assms(3) show ?thesis by simp
qed

lemma rows_untouched:
  "i \<notin> set rows \<Longrightarrow> k < m \<Longrightarrow> n \<le> m \<Longrightarrow>
     fold (\<lambda>j d. fold (\<lambda>k' d'. d'[j * m + k' := val j k']) [0..<n] d) rows d ! (i * m + k)
       = d ! (i * m + k)"
proof (induction rows arbitrary: d)
  case Nil
  then show ?case by simp
next
  case (Cons j rows)
  from Cons.prems have ji: "j \<noteq> i" and "i \<notin> set rows" by auto
  have "i * m + k \<notin> (\<lambda>k'. j * m + k') ` set [0..<n]"
  proof
    assume "i * m + k \<in> (\<lambda>k'. j * m + k') ` set [0..<n]"
    then obtain k' where "i * m + k = j * m + k'" and "k' \<in> set [0..<n]" by (rule imageE)
    then have k': "k' < n" "j * m + k' = i * m + k" by simp_all
    from k'(1) Cons.prems(3) have "k' < m" by simp
    from row_index_inj [OF Cons.prems(2) this k'(2)] ji show False by simp
  qed
  then have "fold (\<lambda>k' d'. d'[j * m + k' := val j k']) [0..<n] d ! (i * m + k) = d ! (i * m + k)"
    by (rule fold_update_untouched)
  with Cons.IH [OF \<open>i \<notin> set rows\<close> Cons.prems(2,3)] show ?case by simp
qed

lemma rows_length:
  "length (fold (\<lambda>j d. fold (\<lambda>k' d'. d'[j * m + k' := val j k']) [0..<n] d) rows d) = length d"
  by (induction rows arbitrary: d) (simp_all add: fold_update_length)

lemma rows_touched:
  "distinct rows \<Longrightarrow> i \<in> set rows \<Longrightarrow> k < n \<Longrightarrow> n \<le> m \<Longrightarrow> i * m + k < length d \<Longrightarrow>
     fold (\<lambda>j d. fold (\<lambda>k' d'. d'[j * m + k' := val j k']) [0..<n] d) rows d ! (i * m + k)
       = val i k"
proof (induction rows arbitrary: d)
  case Nil
  then show ?case by simp
next
  case (Cons j rows)
  show ?case
  proof (cases "i \<in> set rows")
    case True
    with Cons show ?thesis by (simp add: fold_update_length)
  next
    case False
    with Cons.prems have j: "j = i" by simp
    have "distinct (map (\<lambda>k'. i * m + k') [0..<n])" by (simp add: distinct_map inj_on_def)
    then have "fold (\<lambda>k' d'. d'[i * m + k' := val i k']) [0..<n] d ! (i * m + k) = val i k"
      using Cons.prems(3,5) by (intro fold_update_touched) simp_all
    moreover have "k < m" using Cons.prems(3,4) by simp
    from rows_untouched [OF False this Cons.prems(4)]
    have "fold (\<lambda>j d. fold (\<lambda>k' d'. d'[j * m + k' := val j k']) [0..<n] d) rows
        (fold (\<lambda>k' d'. d'[i * m + k' := val i k']) [0..<n] d) ! (i * m + k)
      = fold (\<lambda>k' d'. d'[i * m + k' := val i k']) [0..<n] d ! (i * m + k)" .
    ultimately show ?thesis using j by simp
  qed
qed

lemma fold_set2_data:
  "fold (\<lambda>k Y'. set2 Y' i k (h k)) ks Y
     = Y\<lparr>adata := fold (\<lambda>k d. d[i * ncols Y + k := h k]) ks (adata Y)\<rparr>"
  by (induction ks arbitrary: Y) (simp_all add: set2_def)

lemma fold_rows_data:
  "fold (\<lambda>i Y. Y\<lparr>adata := G i (ncols Y) (adata Y)\<rparr>) rows Y
     = Y\<lparr>adata := fold (\<lambda>i d. G i (ncols Y) d) rows (adata Y)\<rparr>"
  by (induction rows arbitrary: Y) simp_all

lemma solve_pixels_data:
  "adata (solve_pixels c T Y)
     = fold (\<lambda>i d. fold (\<lambda>k d'. d'[i * ncols Y + k
                := fsolve c (\<lambda>y. func y (get2 T i k)) (Fin 0)]) [0..<ncols T] d)
         [0..<nrows T] (adata Y)"
  unfolding solve_pixels_def fold_set2_data
  by (simp add: fold_rows_data
      [where G = "\<lambda>i m d. fold (\<lambda>k d'. d'[i * m + k
                := fsolve c (\<lambda>y. func y (get2 T i k)) (Fin 0)]) [0..<ncols T] d"])

lemma solve_pixels_get2:
  assumes "length (adata T) = nrows T * ncols T" and "i < nrows T" and "k < ncols T"
  shows "get2 (solve_pixels c T T) i k = fsolve c (\<lambda>y. func y (get2 T i k)) (Fin 0)"
proof -
  have "i * ncols T + k < Suc i * ncols T" using assms(3) by simp
  also have "\<dots> \<le> nrows T * ncols T" using assms(2) by (intro mult_le_mono1) simp
  finally have lt: "i * ncols T + k < length (adata T)" using assms(1) by simp
  show ?thesis
    unfolding get2_def solve_pixels_shape solve_pixels_data
    using assms(2,3) lt
    by (intro rows_touched [where val = "\<lambda>i k. fsolve c (\<lambda>y. func y (adata T ! (i * ncols T + k))) (Fin 0)"])
      simp_all
qed

text \<open>
  Claim C3, amended: in every run of \<open>create_tsz_map\<close> that returns, the Compton-y map has
  the shape of the tSZ temperature map, and its value at every pixel \<open>(i, k)\<close> is what the
  root-finder returned for the function \<open>y \<mapsto> classical_tsz(y, 143 GHz) - d_b(dt_pixel, 143 GHz)\<close>
  from the initial guess \<open>y = 0\<close>. The value is stored as returned: that it is a root is
  not checked, and is not the case when the equation has none.
\<close>

theorem compton_y_is_solver_output:
  assumes "create_tsz_map c res seed g0 = Inr (TSZ_Y, g')"
  shows "\<exists>TSZ_T. sz_temperature_map c tsz_dl_tt res seed = Inr (TSZ_T, g') \<and>
      nrows TSZ_Y = nrows TSZ_T \<and> ncols TSZ_Y = ncols TSZ_T \<and>
      (\<forall>i<nrows TSZ_T. \<forall>k<ncols TSZ_T.
         get2 TSZ_Y i k = fsolve c (\<lambda>y. func y (get2 TSZ_T i k)) (Fin 0))"
proof -
  from assms obtain TSZ_T
    where T: "sz_temperature_map c tsz_dl_tt res seed = Inr (TSZ_T, g')"
      and Y: "TSZ_Y = solve_pixels c TSZ_T TSZ_T"
    by (auto simp: create_tsz_map_def split: sum.splits)
  from sz_temperature_map_shape [OF T]
  have wf: "length (adata TSZ_T) = nrows TSZ_T * ncols TSZ_T" by auto
  show ?thesis
    using T Y wf by (auto simp: solve_pixels_shape solve_pixels_get2)
qed

text \<open>
  At a temperature pixel of \<open>-1\<close> the effective temperature \<open>TCMB / (1 + dt)\<close> is a
  division by zero, \<open>d_b\<close> is \<open>nan\<close>, and so is the residual for every \<open>y\<close>: the
  equation has no root.
\<close>

lemma np_add_NaN_right [simp]: "np_add a NaN = NaN"
  by (cases a) simp_all

lemma np_mul_NaN_right [simp]: "np_mul a NaN = NaN"
  by (cases a) simp_all

lemma np_div_NaN_right [simp]: "np_div a NaN = NaN"
  by (cases a) simp_all

lemma d_b_minus_one: "d_b (Fin (- 1)) (Fin nu) = NaN"
  by (simp add: d_b_def Let_def np_sub_def overflow_zero overflow_small
      TCMB_def k_b_def h_p_def c_light_def)

lemma func_no_root: "func y (Fin (- 1)) = NaN"
  by (simp add: func_def np_sub_def d_b_minus_one)

section \<open>Concrete runs\<close>

lemma stub_sel:
  "seed_state (stub_collab raws v) seed = raws"
  "next_raw (stub_collab raws v) [] = (0, [])"
  "next_raw (stub_collab raws v) (r # rs) = (r, rs)"
  "camb_totCL_TT (stub_collab raws v) = [Fin 0, Fin 1]"
  "make_gaussian_realisation (stub_collab raws v) (nx, ny, dx, dy) el cl bl g
     = Inr (const_arr (nat ny) (nat nx) (Fin v), g)"
  "get_covariance (stub_collab raws v) a n g = Inr ((), g)"
  "inpainting (stub_collab raws v) d a s g
     = Inr ((const_arr 34 34 (Fin 0), const_arr 34 34 (Fin 1), const_arr 34 34 (Fin 3)), g)"
  "fsolve (stub_collab raws v) f x0 = x0"
  by (simp_all add: stub_collab_def)

lemma stub_sz_temperature:
  assumes "dl \<noteq> []"
  shows "sz_temperature_map (stub_collab raws 0) dl 1000 40 = Inr (const_arr 3 3 (Fin 0), raws)"
proof -
  obtain cl where cl: "dl_to_cl dl = Inr cl"
    using dl_to_cl_monopole [OF assms] by blast
  show ?thesis
    unfolding sz_temperature_map_def Let_def cl int_of_quotient_examples
    by (simp add: stub_sel reshape_square_def const_arr_def arr_scale_def overflow_zero)
qed

lemma stub_ksz:
  "create_ksz_map (stub_collab raws 0) 1000 40 g = Inr (const_arr 3 3 (Fin 0), raws)"
  by (simp add: create_ksz_map_def stub_sz_temperature ksz_dl_tt_def)

lemma solve_pixels_identity_solver:
  assumes id: "\<And>f x0. fsolve c f x0 = x0"
    and wf: "length (adata T) = nrows T * ncols T"
  shows "solve_pixels c T T = T\<lparr>adata := replicate (nrows T * ncols T) (Fin 0)\<rparr>"
proof -
  define Y where "Y = solve_pixels c T T"
  have shape: "nrows Y = nrows T" "ncols Y = ncols T" "length (adata Y) = nrows T * ncols T"
    by (simp_all add: Y_def solve_pixels_shape wf)
  have "adata Y ! p = Fin 0" if p: "p < nrows T * ncols T" for p
  proof -
    from p have n: "0 < ncols T" by (cases "ncols T") simp_all
    have i: "p div ncols T < nrows T"
      using p by (simp add: less_mult_imp_div_less)
    have k: "p mod ncols T < ncols T" using n by simp
    have "get2 Y (p div ncols T) (p mod ncols T) = Fin 0"
      unfolding Y_def using solve_pixels_get2 [OF wf i k, of c] by (simp add: id)
    then show ?thesis by (simp add: get2_def shape)
  qed
  then have "adata Y = replicate (nrows T * ncols T) (Fin 0)"
    using shape(3) by (intro nth_equalityI) simp_all
  then show ?thesis
    unfolding Y_def [symmetric] using shape by (intro arr2.equality) simp_all
qed

lemma stub_tsz:
  "create_tsz_map (stub_collab raws 0) 1000 40 g = Inr (const_arr 3 3 (Fin 0), raws)"
proof -
  have T: "sz_temperature_map (stub_collab raws 0) tsz_dl_tt 1000 40
      = Inr (const_arr 3 3 (Fin 0), raws)"
    by (rule stub_sz_temperature) (simp add: tsz_dl_tt_def)
  have "solve_pixels (stub_collab raws 0) (const_arr 3 3 (Fin 0)) (const_arr 3 3 (Fin 0))
      = const_arr 3 3 (Fin 0)"
    by (subst solve_pixels_identity_solver) (simp_all add: stub_sel const_arr_def)
  then show ?thesis by (simp add: create_tsz_map_def T)
qed

lemma stub_cmb_setup:
  "\<exists>args. cmb_setup (stub_collab raws v) 1000 40
     = Inr ([\<lparr>nrows = 0, ncols = 0, adata = []\<rparr>], args, (), raws)"
proof -
  obtain cl where cl: "dl_to_cl [Fin 0, Fin 1] = Inr cl"
    using dl_to_cl_monopole [of "[Fin 0, Fin 1]"] by auto
  show ?thesis
    unfolding cmb_setup_def Let_def stub_sel cl int_of_quotient_examples
    by (simp add: stub_sel linspace_def meshgrid_def const_arr_def arr_binop_def
        broadcast_dim_def)
qed

lemma stub_central_difference:
  "central_difference (const_arr 34 34 (Fin 0), const_arr 34 34 (Fin 1), const_arr 34 34 (Fin 3))
     = Inr \<lparr>nrows = 1, ncols = 1, adata = [Fin 2]\<rparr>"
proof -
  have "get2 (const_arr 34 34 (Fin 3)) 33 33 = Fin 3" "get2 (const_arr 34 34 (Fin 1)) 33 33 = Fin 1"
    by (rule get2_const; simp)+
  moreover have "np_sub (Fin 3) (Fin 1) = Fin 2"
    by (simp add: np_sub_def overflow_small)
  ultimately show ?thesis
    by (subst central_difference_big) (simp_all add: const_arr_def)
qed

lemma stub_anis_loop:
  "anis_loop (stub_collab raws v) sim args () n acc passed g
     = Inr (acc @ replicate n \<lparr>nrows = 1, ncols = 1, adata = [Fin 2]\<rparr>,
            passed @ replicate n [(''T'', sim)], g)"
proof (induction n arbitrary: acc passed)
  case 0
  then show ?case by simp
next
  case (Suc n)
  show ?case
    by (simp add: Let_def stub_sel stub_central_difference Suc.IH del: One_nat_def)
qed

lemma stub_inpaint_results:
  "inpaint_results (stub_collab raws v) d args s n g
     = replicate n (const_arr 34 34 (Fin 0), const_arr 34 34 (Fin 1), const_arr 34 34 (Fin 3))"
  by (induction n) (simp_all add: stub_sel)

lemma stub_cmb:
  "create_cmb_map (stub_collab raws v) 1000 2 40 g
     = Inr ([Fin (2 / 10 ^ 6), Fin (2 / 10 ^ 6)],
            [[(''T'', [\<lparr>nrows = 0, ncols = 0, adata = []\<rparr>])],
             [(''T'', [\<lparr>nrows = 0, ncols = 0, adata = []\<rparr>])]], raws)"
proof -
  obtain args where su: "cmb_setup (stub_collab raws v) 1000 40
     = Inr ([\<lparr>nrows = 0, ncols = 0, adata = []\<rparr>], args, (), raws)"
    using stub_cmb_setup by blast
  have two: "replicate 2 x = [x, x]" for x :: 'a by (simp add: numeral_2_eq_2)
  show ?thesis
    unfolding create_cmb_map_def su
    by (simp add: stub_anis_loop two asarray_flatten_def overflow_small)
qed

lemma stub_draws:
  "randint (stub_collab raws v) low high (r # rs) = (low + int r mod (high - low), rs)"
  by (simp add: randint_def stub_sel)

lemma zero_map_amplitude:
  "background_subtracted (const_arr 3 3 (Fin 0)) 2 2 = Inr (Fin 0)"
  by (rule background_subtracted_const) (simp_all add: MAXF_pos less_imp_le)

lemma stub_parameter_file:
  "create_parameter_file (stub_collab [7, 11, 996, 1992, 159, 160, 0, 996] 0) 1000 2 g
     = Inr ([[Fin 7, Fin 11, Fin (2 / 10 ^ 6), Fin 0, Fin 0],
             [Fin 159, Fin 0, Fin (2 / 10 ^ 6), Fin 0, Fin 0]], [])"
proof -
  have idx: "[0..<2] = [0, Suc 0]" by (simp add: upt_rec numeral_2_eq_2)
  show ?thesis
    unfolding create_parameter_file_def stub_cmb stub_ksz stub_tsz idx
    by (simp add: stub_draws zero_map_amplitude)
qed

theorem cmb_anis_central_pixel_witness:
  "create_cmb_map (stub_collab [] 0) 1000 2 40 []
     = Inr ([Fin (2 / 10 ^ 6), Fin (2 / 10 ^ 6)],
            [[(''T'', [\<lparr>nrows = 0, ncols = 0, adata = []\<rparr>])],
             [(''T'', [\<lparr>nrows = 0, ncols = 0, adata = []\<rparr>])]], []) \<and>
   [Fin (2 / 10 ^ 6), Fin (2 / 10 ^ 6)]
     = map (\<lambda>(a, inp, filt). np_mul (np_sub (get2 filt 33 33) (get2 inp 33 33)) (Fin (1 / 10 ^ 6)))
         [(const_arr 34 34 (Fin 0), const_arr 34 34 (Fin 1), const_arr 34 34 (Fin 3)),
          (const_arr 34 34 (Fin 0), const_arr 34 34 (Fin 1), const_arr 34 34 (Fin 3))]"
proof -
  obtain args where su: "cmb_setup (stub_collab [] 0) 1000 40
     = Inr ([\<lparr>nrows = 0, ncols = 0, adata = []\<rparr>], args, (), [])"
    using stub_cmb_setup by blast
  have two: "replicate 2 x = [x, x]" for x :: 'a by (simp add: numeral_2_eq_2)
  have big: "list_all (\<lambda>(a, inp, filt). 34 \<le> nrows inp \<and> 34 \<le> ncols inp \<and>
                 34 \<le> nrows filt \<and> 34 \<le> ncols filt)
               (inpaint_results (stub_collab [] 0) [(''T'', [\<lparr>nrows = 0, ncols = 0, adata = []\<rparr>])]
                  args () 2 [])"
    by (simp add: stub_inpaint_results two const_arr_def)
  from cmb_anis_central_pixel [OF stub_cmb su] big
  have "[Fin (2 / 10 ^ 6), Fin (2 / 10 ^ 6)]
     = map (\<lambda>(a, inp, filt). np_mul (np_sub (get2 filt 33 33) (get2 inp 33 33)) (Fin (1 / 10 ^ 6)))
         (inpaint_results (stub_collab [] 0) [(''T'', [\<lparr>nrows = 0, ncols = 0, adata = []\<rparr>])]
            args () 2 [])"
    by blast
  then show ?thesis
    by (simp add: stub_cmb stub_inpaint_results two)
qed

theorem composite_map_built_once_witness:
  "\<exists>mapparams el cl_tt bl nl cmb g1 noise g2 sim_map.
      make_gaussian_realisation (stub_collab [] 0) mapparams el cl_tt (Some bl)
        (seed_state (stub_collab [] 0) 40) = Inr (cmb, g1) \<and>
      make_gaussian_realisation (stub_collab [] 0) mapparams el nl None g1 = Inr (noise, g2) \<and>
      arr3_add [cmb] [noise] = Inr sim_map \<and>
      [[(''T'', [\<lparr>nrows = 0, ncols = 0, adata = []\<rparr>])],
       [(''T'', [\<lparr>nrows = 0, ncols = 0, adata = []\<rparr>])]] = replicate 2 [(''T'', sim_map)]"
  using composite_map_built_once [OF stub_cmb [of "[]" 0 "[]"]] .

theorem compton_y_is_solver_output_witness:
  "create_tsz_map (stub_collab [] 0) 1000 40 [] = Inr (const_arr 3 3 (Fin 0), []) \<and>
   get2 (const_arr 3 3 (Fin 0)) 1 2
     = fsolve (stub_collab [] 0) (\<lambda>y. func y (get2 (const_arr 3 3 (Fin 0)) 1 2)) (Fin 0)"
proof -
  have T: "sz_temperature_map (stub_collab [] 0) tsz_dl_tt 1000 40
      = Inr (const_arr 3 3 (Fin 0), [])"
    by (rule stub_sz_temperature) (simp add: tsz_dl_tt_def)
  from compton_y_is_solver_output [OF stub_tsz [of "[]" "[]"]] T
  have "\<forall>i<nrows (const_arr 3 3 (Fin 0)). \<forall>k<ncols (const_arr 3 3 (Fin 0)).
         get2 (const_arr 3 3 (Fin 0)) i k
           = fsolve (stub_collab [] 0) (\<lambda>y. func y (get2 (const_arr 3 3 (Fin 0)) i k)) (Fin 0)"
    by auto
  then have "get2 (const_arr 3 3 (Fin 0)) 1 2
     = fsolve (stub_collab [] 0) (\<lambda>y. func y (get2 (const_arr 3 3 (Fin 0)) 1 2)) (Fin 0)"
    by (simp add: const_arr_def)
  with stub_tsz show ?thesis by simp
qed

text \<open>
  Claim C3, as stated: the value stored at every pixel of the Compton-y map is a root of
  \<open>classical_tsz(y, 143 GHz) - d_b(dt_pixel, 143 GHz) = 0\<close>. In the run below the tSZ
  temperature map is the single pixel \<open>-1\<close>, the solver returns \<open>0\<close>, which is stored,
  and the residual at that pixel is \<open>nan\<close> for every \<open>y\<close>, the stored one included.
\<close>

theorem compton_y_root_counterexample:
  "create_tsz_map (stub_collab [] (- (10 ^ 6))) 3000 40 []
     = Inr (\<lparr>nrows = 1, ncols = 1, adata = [Fin 0]\<rparr>, []) \<and>
   sz_temperature_map (stub_collab [] (- (10 ^ 6))) tsz_dl_tt 3000 40
     = Inr (\<lparr>nrows = 1, ncols = 1, adata = [Fin (- 1)]\<rparr>, []) \<and>
   (\<forall>y. func y (Fin (- 1)) = NaN)"
proof -
  obtain cl where cl: "dl_to_cl tsz_dl_tt = Inr cl"
    using dl_to_cl_monopole [of tsz_dl_tt] by (auto simp: tsz_dl_tt_def)
  have T: "sz_temperature_map (stub_collab [] (- (10 ^ 6))) tsz_dl_tt 3000 40
     = Inr (\<lparr>nrows = 1, ncols = 1, adata = [Fin (- 1)]\<rparr>, [])"
    unfolding sz_temperature_map_def Let_def cl int_of_quotient_examples
    by (simp add: stub_sel reshape_square_def const_arr_def arr_scale_def overflow_small)
  have "solve_pixels (stub_collab [] (- (10 ^ 6))) \<lparr>nrows = 1, ncols = 1, adata = [Fin (- 1)]\<rparr>
      \<lparr>nrows = 1, ncols = 1, adata = [Fin (- 1)]\<rparr> = \<lparr>nrows = 1, ncols = 1, adata = [Fin 0]\<rparr>"
    by (subst solve_pixels_identity_solver) (simp_all add: stub_sel)
  then show ?thesis
    unfolding create_tsz_map_def T sum.case prod.case by (simp add: func_no_root)
qed

theorem parameter_matrix_shape_and_ranges_witness:
  "create_parameter_file (stub_collab [7, 11, 996, 1992, 159, 160, 0, 996] 0) 1000 2 []
     = Inr ([[Fin 7, Fin 11, Fin (2 / 10 ^ 6), Fin 0, Fin 0],
             [Fin 159, Fin 0, Fin (2 / 10 ^ 6), Fin 0, Fin 0]], []) \<and>
   length [[Fin 7, Fin 11, Fin (2 / 10 ^ 6), Fin 0, Fin 0],
           [Fin 159, Fin 0, Fin (2 / 10 ^ 6), Fin 0, Fin 0]] = 2 \<and>
   list_all (\<lambda>row. length row = 5)
     [[Fin 7, Fin 11, Fin (2 / 10 ^ 6), Fin 0, Fin 0],
      [Fin 159, Fin 0, Fin (2 / 10 ^ 6), Fin 0, Fin 0]]"
  using parameter_matrix_shape_and_ranges [OF stub_parameter_file [of "[]"]] stub_parameter_file
  by simp


end
